theory Spec2Isabelle
  imports Main "HOL-Library.Word" "HOL-Library.Signed_Division"
begin

section \<open>The ring stream buffer (ringbuf.c)\<close>

text \<open>
  A shallow embedding of the stream filter of \<^verbatim>\<open>ringbuf.c\<close>: the shared state
  \<^verbatim>\<open>stream_sys_t\<close>, the ring primitives that run with the mutex held
  (\<^verbatim>\<open>WaitBufferForRead_l\<close>, \<^verbatim>\<open>PeekFromBuffer_l\<close>, \<^verbatim>\<open>ReadFromBuffer_l\<close>,
  \<^verbatim>\<open>WaitBufferForWrite_l\<close>, \<^verbatim>\<open>WriteToBuffer_l\<close>), the producer \<^verbatim>\<open>BufferThread\<close>
  and the consumer entry points \<^verbatim>\<open>Read\<close>, \<^verbatim>\<open>Peek\<close> and \<^verbatim>\<open>Control\<close>.

  Conventions.
  \<^item> A C \<^verbatim>\<open>int\<close> is a mathematical integer: signed overflow is undefined in C, and
    the model says nothing about a run that would overflow. \<^verbatim>\<open>/\<close> and \<^verbatim>\<open>%\<close> on
    \<^verbatim>\<open>int\<close> truncate towards zero (\<open>sdiv\<close>, \<open>smod\<close>).
  \<^item> \<^verbatim>\<open>uint64_t\<close> is \<open>64 word\<close>, \<^verbatim>\<open>unsigned int\<close> is \<open>32 word\<close>; a conversion of an
    \<^verbatim>\<open>int\<close> to \<^verbatim>\<open>uint64_t\<close> is \<open>word_of_int\<close>, the conversion of an
    \<^verbatim>\<open>unsigned int\<close> argument to an \<^verbatim>\<open>int\<close> parameter is \<open>sint\<close>.
  \<^item> The content of a byte buffer is a function from offsets to bytes. A buffer that
    \<^verbatim>\<open>memcpy\<close> reads or writes is a region: its content and its size. A copy that would
    leave a region has no defined behaviour in C; it is the result \<open>Out_of_bounds\<close> here,
    and nothing is said about what follows it.
  \<^item> Condition variable operations, calls on the source stream and \<^verbatim>\<open>realloc\<close> are
    recorded, in program order, in the field \<open>events\<close> that the model adds to the state.
  \<^item> A timed wait on a condition variable releases the mutex; what the other threads do
    to the state meanwhile is one element of an interference list. A loop that is still
    waiting when the list is used up has not returned: its value is \<open>None\<close>.
  \<^item> Where the producer releases the mutex between two critical sections, what the other
    threads do to the state meanwhile is a parameter of the same kind.
  \<^item> Logging (\<^verbatim>\<open>msg_*\<close>) and the cancellation points are left out.
\<close>

subsection \<open>Constants\<close>

definition RING_BLOCK_SIZE :: int where
  "RING_BLOCK_SIZE = 1 * 1024 * 1024"

definition RING_BLOCK_COUNT :: int where
  "RING_BLOCK_COUNT = 10"

definition RING_TOTAL_CAPACITY :: int where
  "RING_TOTAL_CAPACITY = RING_BLOCK_SIZE * RING_BLOCK_COUNT"

definition RING_BUFF_RW_GUARD_GAP :: int where
  "RING_BUFF_RW_GUARD_GAP = 1024"

definition RING_BUFF_SEEK_GUARD_GAP :: int where
  "RING_BUFF_SEEK_GUARD_GAP = 1 * 1024 * 1024"

definition RING_SEEK_THRESHOLD :: int where
  "RING_SEEK_THRESHOLD = 1 * 1024 * 1024"

definition BYTES_PER_READ :: int where
  "BYTES_PER_READ = 32 * 1024"

lemmas ring_consts =
  RING_BLOCK_SIZE_def RING_BLOCK_COUNT_def RING_TOTAL_CAPACITY_def
  RING_BUFF_RW_GUARD_GAP_def RING_BUFF_SEEK_GUARD_GAP_def RING_SEEK_THRESHOLD_def
  BYTES_PER_READ_def

subsection \<open>The shared state\<close>

type_synonym uint8_t = "8 word"
type_synonym uint64_t = "64 word"
type_synonym unsigned_int = "32 word"

text \<open>Bytes addressed by offset, and a region of memory: its size and what it holds.\<close>

type_synonym bytes = "int \<Rightarrow> uint8_t"

record region =
  r_size :: int
  r_bytes :: bytes

datatype cond = wakeup_read_cond | wakeup_write_cond

datatype event =
    Cond_broadcast cond
  | Cond_timedwait cond
  | Stream_Tell
  | Stream_Seek uint64_t
  | Stream_Read int
  | Realloc unsigned_int

record stream_sys_t =
  i_stream_size :: uint64_t
  b_can_fastseek :: bool
  b_can_seek :: bool
  b_error :: bool
  b_abort :: bool
  p_buffer :: "int \<Rightarrow> bytes"
  i_capacity :: int
  i_cache_index :: int
  i_cache_size :: int
  i_cache_offset :: uint64_t
  i_buffer_size :: int
  i_read_index :: int
  i_write_index :: int
  i_seek_pos :: uint64_t
  b_seek_request :: bool
  i_stream_offset :: uint64_t
  b_buffered_eos :: bool
  p_temp_peek :: "region option"
  i_temp_peek_capacity :: unsigned_int
  events :: "event list"

definition emit :: "event \<Rightarrow> stream_sys_t \<Rightarrow> stream_sys_t" where
  "emit e s = s\<lparr>events := events s @ [e]\<rparr>"

text \<open>What the other threads do to the state during one timed wait.\<close>

type_synonym interference = "stream_sys_t \<Rightarrow> stream_sys_t"

text \<open>
  The result of a function that can wait, can fail an \<^verbatim>\<open>assert\<close> and can copy: it
  returns (\<open>Returns\<close>), it has not returned when the interference or the source's answers
  supplied to it are used up (\<open>Pending\<close>), the assertion fails and the process is
  aborted (\<open>Assert_fails\<close>), or a copy leaves a region (\<open>Out_of_bounds\<close>).
\<close>

datatype 'a outcome = Returns 'a | Pending | Assert_fails | Out_of_bounds

text \<open>
  \<^verbatim>\<open>sys_Alloc\<close>: the structure is cleared with \<^verbatim>\<open>memset\<close>, then the ten blocks are
  allocated (their content is whatever \<^verbatim>\<open>malloc\<close> returned, the parameter \<open>blocks\<close>).
  The allocation failures are the \<open>None\<close> result.
\<close>

definition sys_Alloc :: "bool \<Rightarrow> (int \<Rightarrow> bytes) \<Rightarrow> stream_sys_t option" where
  "sys_Alloc malloc_ok blocks =
     (if \<not> malloc_ok then None
      else Some \<lparr> i_stream_size = 0, b_can_fastseek = False, b_can_seek = False,
                  b_error = False, b_abort = False, p_buffer = blocks, i_capacity = 0,
                  i_cache_index = 0, i_cache_size = 0, i_cache_offset = 0,
                  i_buffer_size = 0, i_read_index = 0, i_write_index = 0,
                  i_seek_pos = 0, b_seek_request = False, i_stream_offset = 0,
                  b_buffered_eos = False, p_temp_peek = None, i_temp_peek_capacity = 0,
                  events = [] \<rparr>)"

subsection \<open>Waiting for data and copying it out\<close>

text \<open>
  One pass through the loop of \<^verbatim>\<open>WaitBufferForRead_l\<close>: the loop condition and the three
  exits of the body. \<open>None\<close> is the pass that reaches the timed wait.
\<close>

definition WaitBufferForRead_pass :: "int \<Rightarrow> stream_sys_t \<Rightarrow> int option" where
  "WaitBufferForRead_pass i_read s =
     (if b_seek_request s \<or> i_read > i_buffer_size s then
        (if b_abort s then Some (- 1)
         else if b_error s then Some (- 1)
         else if b_buffered_eos s then Some (i_buffer_size s)
         else None)
      else Some i_read)"

text \<open>The part of the body after the exits: the broadcast and the timed wait.\<close>

definition WaitBufferForRead_wait :: "stream_sys_t \<Rightarrow> stream_sys_t" where
  "WaitBufferForRead_wait s =
     emit (Cond_timedwait wakeup_read_cond)
       (if \<not> b_seek_request s then emit (Cond_broadcast wakeup_write_cond) s else s)"

fun WaitBufferForRead_loop ::
  "interference list \<Rightarrow> int \<Rightarrow> stream_sys_t \<Rightarrow> (int \<times> stream_sys_t) option" where
  "WaitBufferForRead_loop [] i_read s =
     (case WaitBufferForRead_pass i_read s of
        Some i_data_ready \<Rightarrow> Some (i_data_ready, s)
      | None \<Rightarrow> None)"
| "WaitBufferForRead_loop (e # env) i_read s =
     (case WaitBufferForRead_pass i_read s of
        Some i_data_ready \<Rightarrow> Some (i_data_ready, s)
      | None \<Rightarrow> WaitBufferForRead_loop env i_read (e (WaitBufferForRead_wait s)))"

definition WaitBufferForRead_l ::
  "interference list \<Rightarrow> int \<Rightarrow> stream_sys_t \<Rightarrow> (int \<times> stream_sys_t) option" where
  "WaitBufferForRead_l env i_read s =
     (if i_read \<le> 0 then Some (i_read, s) else WaitBufferForRead_loop env i_read s)"

text \<open>
  \<^verbatim>\<open>memcpy (dst + d, src + off, n)\<close> on regions: the \<open>n\<close> bytes read have to lie in the
  source and the \<open>n\<close> bytes written in the destination; otherwise the result is \<open>None\<close>.
\<close>

definition memcpy :: "region \<Rightarrow> int \<Rightarrow> region \<Rightarrow> int \<Rightarrow> int \<Rightarrow> region option" where
  "memcpy dst d src off n =
     (if 0 \<le> n \<and> 0 \<le> d \<and> d + n \<le> r_size dst \<and> 0 \<le> off \<and> off + n \<le> r_size src
      then Some (dst\<lparr> r_bytes :=
                   (\<lambda>k. if d \<le> k \<and> k < d + n then r_bytes src (off + (k - d))
                        else r_bytes dst k) \<rparr>)
      else None)"

text \<open>
  \<^verbatim>\<open>p_sys->p_buffer[i_block_id]\<close>: the array has \<^verbatim>\<open>RING_BLOCK_COUNT\<close> elements, each a
  region of \<^verbatim>\<open>RING_BLOCK_SIZE\<close> bytes; another index is \<open>None\<close>.
\<close>

definition ring_block :: "(int \<Rightarrow> bytes) \<Rightarrow> int \<Rightarrow> region option" where
  "ring_block blocks i_block_id =
     (if 0 \<le> i_block_id \<and> i_block_id < RING_BLOCK_COUNT
      then Some \<lparr> r_size = RING_BLOCK_SIZE, r_bytes = blocks i_block_id \<rparr>
      else None)"

text \<open>
  The copy loop of \<^verbatim>\<open>PeekFromBuffer_l\<close>, block by block; its result is the destination
  and \<^verbatim>\<open>i_data_filled\<close>, or \<open>None\<close> when a copy leaves a region. The local copy of the
  read index is \<open>i_index\<close>. A null destination is \<open>None\<close> and the copy is skipped, as the
  guard \<^verbatim>\<open>if( p_buffer )\<close> does.
\<close>

function peek_copy ::
  "(int \<Rightarrow> bytes) \<Rightarrow> int \<Rightarrow> region option \<Rightarrow> int \<Rightarrow> int \<Rightarrow> (region option \<times> int) option" where
  "peek_copy blocks i_to_read p_buf i_index i_data_filled =
     (if i_data_filled < i_to_read then
        (let i_block_id = i_index sdiv RING_BLOCK_SIZE;
             i_offset_in_block = i_index smod RING_BLOCK_SIZE;
             i_max_read_in_block = RING_BLOCK_SIZE - i_offset_in_block;
             i_copy = i_to_read - i_data_filled;
             i_copy = (if i_copy > i_max_read_in_block then i_max_read_in_block else i_copy);
             copied = (case p_buf of
                         None \<Rightarrow> Some None
                       | Some dst \<Rightarrow>
                           (case ring_block blocks i_block_id of
                              None \<Rightarrow> None
                            | Some src \<Rightarrow>
                                map_option Some
                                  (memcpy dst i_data_filled src i_offset_in_block i_copy)))
         in case copied of
              None \<Rightarrow> None
            | Some p_buf' \<Rightarrow>
                peek_copy blocks i_to_read p_buf'
                  ((i_index + i_copy) smod RING_TOTAL_CAPACITY) (i_data_filled + i_copy))
      else Some (p_buf, i_data_filled))"
  by pat_completeness auto

lemma smod_block_less: "i smod RING_BLOCK_SIZE < RING_BLOCK_SIZE"
  using smod_int_range [where a = i and b = RING_BLOCK_SIZE]
  by (simp add: RING_BLOCK_SIZE_def)

termination peek_copy
proof (relation "measure (\<lambda>(blocks, i_to_read, p_buf, i_index, i_data_filled).
                            nat (i_to_read - i_data_filled))", goal_cases)
  case 1
  show ?case by simp
next
  case (2 blocks i_to_read p_buf i_index i_data_filled)
  then show ?case
    using smod_block_less [of i_index] by (simp add: Let_def)
qed

text \<open>
  \<^verbatim>\<open>PeekFromBuffer_l\<close>. The result is the returned count, the destination after the copy
  and the state after the wait. The count copied is \<^verbatim>\<open>i_data_ready\<close>, limited by
  \<^verbatim>\<open>i_buffer_size\<close> only.
\<close>

definition PeekFromBuffer_l ::
  "interference list \<Rightarrow> region option \<Rightarrow> int \<Rightarrow> stream_sys_t \<Rightarrow>
     (int \<times> region option \<times> stream_sys_t) outcome" where
  "PeekFromBuffer_l env p_buf i_read s =
     (case WaitBufferForRead_l env i_read s of
        None \<Rightarrow> Pending
      | Some (i_data_ready, s') \<Rightarrow>
          if i_data_ready < 0 then Returns (i_data_ready, p_buf, s')
          else if i_buffer_size s' \<le> 0 then Returns (i_data_ready, p_buf, s')
          else
            (let i_to_read = i_data_ready;
                 i_to_read = (if i_to_read > i_buffer_size s' then i_buffer_size s'
                              else i_to_read)
             in case peek_copy (p_buffer s') i_to_read p_buf (i_read_index s') 0 of
                  None \<Rightarrow> Out_of_bounds
                | Some (p_buf', i_data_filled) \<Rightarrow> Returns (i_data_filled, p_buf', s')))"

definition ReadFromBuffer_l ::
  "interference list \<Rightarrow> region option \<Rightarrow> int \<Rightarrow> stream_sys_t \<Rightarrow>
     (int \<times> region option \<times> stream_sys_t) outcome" where
  "ReadFromBuffer_l env p_buf i_read s =
     (case PeekFromBuffer_l env p_buf i_read s of
        Pending \<Rightarrow> Pending
      | Assert_fails \<Rightarrow> Assert_fails
      | Out_of_bounds \<Rightarrow> Out_of_bounds
      | Returns (i_data_peeked, p_buf', s') \<Rightarrow>
          if i_data_peeked < 0 then Returns (i_data_peeked, p_buf', s')
          else Returns (i_data_peeked, p_buf',
                 emit (Cond_broadcast wakeup_write_cond)
                   (s'\<lparr> i_buffer_size := i_buffer_size s' - i_data_peeked,
                        i_read_index :=
                          (i_read_index s' + i_data_peeked) smod RING_TOTAL_CAPACITY,
                        i_stream_offset := i_stream_offset s' + word_of_int i_data_peeked \<rparr>)))"

subsection \<open>Waiting for space and copying in\<close>

text \<open>One pass through the loop of \<^verbatim>\<open>WaitBufferForWrite_l\<close>; \<open>None\<close> reaches the timed wait.\<close>

definition WaitBufferForWrite_pass :: "int \<Rightarrow> stream_sys_t \<Rightarrow> int option" where
  "WaitBufferForWrite_pass i_buffer s =
     (if i_buffer_size s + i_buffer >
           RING_TOTAL_CAPACITY - RING_BUFF_RW_GUARD_GAP - RING_BUFF_SEEK_GUARD_GAP then
        (if b_abort s then Some (- 1)
         else if b_error s then Some (- 1)
         else if b_seek_request s \<and>
                 i_buffer_size s + i_buffer < RING_TOTAL_CAPACITY - RING_BUFF_RW_GUARD_GAP
              then Some i_buffer
         else None)
      else Some i_buffer)"

definition WaitBufferForWrite_wait :: "stream_sys_t \<Rightarrow> stream_sys_t" where
  "WaitBufferForWrite_wait s =
     emit (Cond_timedwait wakeup_write_cond) (emit (Cond_broadcast wakeup_read_cond) s)"

fun WaitBufferForWrite_loop ::
  "interference list \<Rightarrow> int \<Rightarrow> stream_sys_t \<Rightarrow> (int \<times> stream_sys_t) option" where
  "WaitBufferForWrite_loop [] i_buffer s =
     (case WaitBufferForWrite_pass i_buffer s of
        Some r \<Rightarrow> Some (r, s)
      | None \<Rightarrow> None)"
| "WaitBufferForWrite_loop (e # env) i_buffer s =
     (case WaitBufferForWrite_pass i_buffer s of
        Some r \<Rightarrow> Some (r, s)
      | None \<Rightarrow> WaitBufferForWrite_loop env i_buffer (e (WaitBufferForWrite_wait s)))"

definition WaitBufferForWrite_l ::
  "interference list \<Rightarrow> int \<Rightarrow> stream_sys_t \<Rightarrow> (int \<times> stream_sys_t) option" where
  "WaitBufferForWrite_l env i_write s =
     (if i_write \<le> 0 then Some (i_write, s) else WaitBufferForWrite_loop env i_write s)"

text \<open>
  The copy loop of \<^verbatim>\<open>WriteToBuffer_l\<close>; its result is the blocks after the copy and
  \<^verbatim>\<open>i_data_filled\<close>, or \<open>None\<close> when a copy leaves a region. The local copy of the write
  index is \<open>i_index\<close>.
\<close>

function write_copy ::
  "region \<Rightarrow> int \<Rightarrow> (int \<Rightarrow> bytes) \<Rightarrow> int \<Rightarrow> int \<Rightarrow> ((int \<Rightarrow> bytes) \<times> int) option" where
  "write_copy p_buf i_write blocks i_index i_data_filled =
     (if i_data_filled < i_write then
        (let i_block_id = i_index sdiv RING_BLOCK_SIZE;
             i_offset_in_block = i_index smod RING_BLOCK_SIZE;
             i_max_write_in_block = RING_BLOCK_SIZE - i_offset_in_block;
             i_copy = i_write - i_data_filled;
             i_copy = (if i_copy > i_max_write_in_block then i_max_write_in_block
                       else i_copy);
             copied = (case ring_block blocks i_block_id of
                         None \<Rightarrow> None
                       | Some dst \<Rightarrow>
                           memcpy dst i_offset_in_block p_buf i_data_filled i_copy)
         in case copied of
              None \<Rightarrow> None
            | Some dst' \<Rightarrow>
                write_copy p_buf i_write (blocks (i_block_id := r_bytes dst'))
                  ((i_index + i_copy) smod RING_TOTAL_CAPACITY) (i_data_filled + i_copy))
      else Some (blocks, i_data_filled))"
  by pat_completeness auto

termination write_copy
proof (relation "measure (\<lambda>(p_buf, i_write, blocks, i_index, i_data_filled).
                            nat (i_write - i_data_filled))", goal_cases)
  case 1
  show ?case by simp
next
  case (2 p_buf i_write blocks i_index i_data_filled)
  then show ?case
    using smod_block_less [of i_index] by (simp add: Let_def)
qed

text \<open>
  The cache window update at the end of \<^verbatim>\<open>WriteToBuffer_l\<close> (the statements from
  \<^verbatim>\<open>p_sys->i_buffer_size += i_data_filled\<close> to the end of the \<^verbatim>\<open>if\<close>).
\<close>

definition write_commit :: "int \<Rightarrow> stream_sys_t \<Rightarrow> stream_sys_t" where
  "write_commit i_data_filled s =
     (let s1 = s\<lparr> i_buffer_size := i_buffer_size s + i_data_filled,
                   i_write_index :=
                     (i_write_index s + i_data_filled) smod RING_TOTAL_CAPACITY,
                   i_cache_size := i_cache_size s + i_data_filled \<rparr>
      in if i_cache_size s1 > RING_TOTAL_CAPACITY then
           (let i_diff = i_cache_size s1 - RING_TOTAL_CAPACITY - RING_BUFF_RW_GUARD_GAP
                           - RING_BUFF_SEEK_GUARD_GAP
            in s1\<lparr> i_cache_offset := i_cache_offset s1 + word_of_int i_diff,
                    i_cache_size := i_cache_size s1 - i_diff,
                    i_cache_index := (i_cache_index s1 + i_diff) smod RING_TOTAL_CAPACITY \<rparr>)
         else s1)"

definition WriteToBuffer_l ::
  "interference list \<Rightarrow> region \<Rightarrow> int \<Rightarrow> stream_sys_t \<Rightarrow> (int \<times> stream_sys_t) outcome" where
  "WriteToBuffer_l env p_buf i_write s =
     (case WaitBufferForWrite_l env i_write s of
        None \<Rightarrow> Pending
      | Some (i_buffer, s') \<Rightarrow>
          if i_buffer < 0 then Returns (i_buffer, s')
          else if \<not> (i_write \<le> RING_TOTAL_CAPACITY - i_buffer_size s') then Assert_fails
          else
            (case write_copy p_buf i_write (p_buffer s') (i_write_index s') 0 of
               None \<Rightarrow> Out_of_bounds
             | Some (blocks', i_data_filled) \<Rightarrow>
                 (let s1 = write_commit i_data_filled (s'\<lparr> p_buffer := blocks' \<rparr>);
                      s2 = (if \<not> b_seek_request s1
                            then emit (Cond_broadcast wakeup_read_cond) s1
                            else s1)
                  in Returns (i_data_filled, s2))))"

subsection \<open>The producer: BufferThread\<close>

text \<open>What one pass of the producer's loop decides: go round again, or \<^verbatim>\<open>break\<close>.\<close>

datatype flow = Continue | Break

text \<open>
  The head of an iteration: \<^verbatim>\<open>stream_Tell\<close> answers \<open>i_source_offset\<close>, and a source at
  or past its size sets \<^verbatim>\<open>b_buffered_eos\<close>.
\<close>

definition BufferThread_tell :: "uint64_t \<Rightarrow> stream_sys_t \<Rightarrow> stream_sys_t" where
  "BufferThread_tell i_source_offset s =
     (let s1 = emit Stream_Tell s
      in if i_source_offset \<ge> i_stream_size s1 then s1\<lparr> b_buffered_eos := True \<rparr> else s1)"

text \<open>The wait of the producer at the end of the stream, for a seek or the end.\<close>

fun eos_wait_loop :: "interference list \<Rightarrow> stream_sys_t \<Rightarrow> stream_sys_t option" where
  "eos_wait_loop [] s =
     (if \<not> b_abort s \<and> \<not> b_error s \<and> \<not> b_seek_request s then None else Some s)"
| "eos_wait_loop (e # env) s =
     (if \<not> b_abort s \<and> \<not> b_error s \<and> \<not> b_seek_request s
      then eos_wait_loop env (e (emit (Cond_timedwait wakeup_write_cond) s))
      else Some s)"

definition BufferThread_eos ::
  "interference list \<Rightarrow> stream_sys_t \<Rightarrow> (flow \<times> stream_sys_t) outcome" where
  "BufferThread_eos env s =
     (if b_buffered_eos s then
        (case eos_wait_loop env (s\<lparr> b_buffered_eos := True \<rparr>) of
           None \<Rightarrow> Pending
         | Some s' \<Rightarrow>
             if b_abort s' \<or> b_error s' then Returns (Break, s')
             else Returns (Continue, s'\<lparr> b_buffered_eos := False \<rparr>))
      else Returns (Continue, s))"

text \<open>
  The first critical section of the seek block: the request is compared with the cached
  range. The result is \<open>(b_long_seek, b_seek_ready)\<close> and the state.
\<close>

definition seek_classify :: "stream_sys_t \<Rightarrow> (bool \<times> bool) \<times> stream_sys_t" where
  "seek_classify s =
     (let cached_start_offset = i_cache_offset s;
          cached_end_offset = cached_start_offset + word_of_int (i_cache_size s)
      in if i_seek_pos s < cached_start_offset \<or>
            i_seek_pos s \<ge> cached_end_offset + word_of_int RING_SEEK_THRESHOLD
         then ((True, True), s)
         else if i_seek_pos s < cached_end_offset
         then ((False, True), s)
         else ((False, False), s\<lparr> i_read_index := i_write_index s, i_buffer_size := 0 \<rparr>))"

text \<open>The names the code's messages give to the three branches.\<close>

datatype seek_class = Long_seek | Short_seek | Middle_seek

fun seek_class_of :: "bool \<times> bool \<Rightarrow> seek_class" where
  "seek_class_of (b_long_seek, b_seek_ready) =
     (if b_seek_ready then (if b_long_seek then Long_seek else Short_seek) else Middle_seek)"

text \<open>
  The second critical section of the seek block, entered when \<^verbatim>\<open>b_seek_ready\<close> holds (and
  after the source has been repositioned, for a long seek).
\<close>

definition seek_commit :: "bool \<Rightarrow> stream_sys_t \<Rightarrow> stream_sys_t" where
  "seek_commit b_long_seek s =
     (let i_source_offset = i_seek_pos s;
          s1 = s\<lparr> i_stream_offset := i_source_offset \<rparr>;
          s2 = (if b_long_seek then
                  s1\<lparr> i_cache_index := 0,
                       i_cache_size := 0,
                       i_cache_offset := i_source_offset,
                       i_read_index :=
                         uint (i_source_offset mod word_of_int RING_TOTAL_CAPACITY),
                       i_write_index :=
                         uint (i_source_offset mod word_of_int RING_TOTAL_CAPACITY),
                       i_buffer_size := 0 \<rparr>
                else
                  (let s1' = s1\<lparr> i_read_index :=
                                    uint (i_source_offset mod word_of_int RING_TOTAL_CAPACITY) \<rparr>
                   in s1'\<lparr> i_buffer_size :=
                             (i_write_index s1' + RING_TOTAL_CAPACITY - i_read_index s1')
                               smod RING_TOTAL_CAPACITY \<rparr>));
          s3 = s2\<lparr> b_seek_request := False, i_seek_pos := 0 \<rparr>
      in if \<not> b_long_seek then emit (Cond_broadcast wakeup_read_cond) s3 else s3)"

text \<open>
  The seek block of an iteration. The mutex is released after the first critical section
  and taken again for the second one, which reads \<^verbatim>\<open>i_seek_pos\<close> anew: \<open>gap\<close> is what
  the other threads do to the state after the classification, and \<open>seek_gap\<close> what they
  do while \<^verbatim>\<open>stream_Seek\<close> runs; \<open>i_seek_ret\<close> is what \<^verbatim>\<open>stream_Seek\<close> answers if it is
  called. A request that is not ready leaves the block in the first section.
\<close>

definition BufferThread_seek ::
  "interference \<Rightarrow> interference \<Rightarrow> int \<Rightarrow> stream_sys_t \<Rightarrow> flow \<times> stream_sys_t" where
  "BufferThread_seek gap seek_gap i_seek_ret s =
     (if b_seek_request s then
        (let ((b_long_seek, b_seek_ready), s1) = seek_classify s
         in if b_seek_ready then
              (let s1' = gap s1
               in if b_long_seek then
                    (let s2 = seek_gap (emit (Stream_Seek (i_seek_pos s1')) s1')
                     in if i_seek_ret < 0 then (Break, s2\<lparr> b_error := True \<rparr>)
                        else (Continue, seek_commit b_long_seek s2))
                  else (Continue, seek_commit b_long_seek s1'))
            else (Continue, s1))
      else (Continue, s))"

text \<open>
  The read step of an iteration; \<open>i_read_ret\<close> is what \<^verbatim>\<open>stream_Read\<close> answers and
  \<open>buf\<close> what it stored in the array \<^verbatim>\<open>buf\<close> of \<^verbatim>\<open>BYTES_PER_READ\<close> bytes.
\<close>

definition BufferThread_read ::
  "interference list \<Rightarrow> int \<Rightarrow> bytes \<Rightarrow> stream_sys_t \<Rightarrow> (flow \<times> stream_sys_t) outcome" where
  "BufferThread_read env i_read_ret buf s =
     (let i_step_read = BYTES_PER_READ;
          s0 = emit (Stream_Read i_step_read) s
      in if i_read_ret < 0 then Returns (Break, s0\<lparr> b_error := True \<rparr>)
         else
           (case (if i_read_ret > 0
                  then WriteToBuffer_l env \<lparr> r_size = BYTES_PER_READ, r_bytes = buf \<rparr>
                         i_read_ret s0
                  else Returns (0, s0)) of
              Pending \<Rightarrow> Pending
            | Assert_fails \<Rightarrow> Assert_fails
            | Out_of_bounds \<Rightarrow> Out_of_bounds
            | Returns (i_fill_ret, s1) \<Rightarrow>
                (let s2 = (if i_read_ret < i_step_read then s1\<lparr> b_buffered_eos := True \<rparr>
                           else s1)
                 in if i_fill_ret < 0 then Returns (Break, s2\<lparr> b_error := True \<rparr>)
                    else Returns (Continue, s2))))"

text \<open>What the source and the other threads supply to one iteration.\<close>

record iteration_io =
  io_tell :: uint64_t
  io_eos_env :: "interference list"
  io_gap :: interference
  io_seek_gap :: interference
  io_seek_ret :: int
  io_read_ret :: int
  io_buf :: bytes
  io_write_env :: "interference list"

definition BufferThread_iteration ::
  "iteration_io \<Rightarrow> stream_sys_t \<Rightarrow> (flow \<times> stream_sys_t) outcome" where
  "BufferThread_iteration io s =
     (case BufferThread_eos (io_eos_env io) (BufferThread_tell (io_tell io) s) of
        Pending \<Rightarrow> Pending
      | Assert_fails \<Rightarrow> Assert_fails
      | Out_of_bounds \<Rightarrow> Out_of_bounds
      | Returns (Break, s1) \<Rightarrow> Returns (Break, s1)
      | Returns (Continue, s1) \<Rightarrow>
          (case BufferThread_seek (io_gap io) (io_seek_gap io) (io_seek_ret io) s1 of
             (Break, s2) \<Rightarrow> Returns (Break, s2)
           | (Continue, s2) \<Rightarrow>
               BufferThread_read (io_write_env io) (io_read_ret io) (io_buf io) s2))"

text \<open>What follows the loop: the flag and the last broadcast.\<close>

definition BufferThread_exit :: "stream_sys_t \<Rightarrow> stream_sys_t" where
  "BufferThread_exit s = emit (Cond_broadcast wakeup_read_cond) (s\<lparr> b_buffered_eos := True \<rparr>)"

fun BufferThread :: "iteration_io list \<Rightarrow> stream_sys_t \<Rightarrow> stream_sys_t outcome" where
  "BufferThread [] s =
     (if \<not> b_abort s \<and> \<not> b_error s then Pending else Returns (BufferThread_exit s))"
| "BufferThread (io # ios) s =
     (if \<not> b_abort s \<and> \<not> b_error s then
        (case BufferThread_iteration io s of
           Pending \<Rightarrow> Pending
         | Assert_fails \<Rightarrow> Assert_fails
         | Out_of_bounds \<Rightarrow> Out_of_bounds
         | Returns (Break, s') \<Rightarrow> Returns (BufferThread_exit s')
         | Returns (Continue, s') \<Rightarrow> BufferThread ios s')
      else Returns (BufferThread_exit s))"

subsection \<open>The consumer: Read, Peek, Control, and Open and Close\<close>

text \<open>The error codes of \<^verbatim>\<open>vlc_common.h\<close> that the file returns, as values.\<close>

datatype vlc_error = VLC_EGENERIC | VLC_ENOMEM

text \<open>
  \<^verbatim>\<open>Read\<close>; \<open>p_buf\<close> is the caller's buffer, \<open>None\<close> for a null pointer.
\<close>

definition Read ::
  "interference list \<Rightarrow> region option \<Rightarrow> unsigned_int \<Rightarrow> stream_sys_t \<Rightarrow>
     (int \<times> region option \<times> stream_sys_t) outcome" where
  "Read env p_buf i_read s = ReadFromBuffer_l env p_buf (sint i_read) s"

text \<open>
  The part of \<^verbatim>\<open>Peek\<close> with the mutex held. The local \<^verbatim>\<open>p_temp_peek\<close> and
  \<^verbatim>\<open>p_sys->p_temp_peek\<close> are the same pointer here, so what the copy stores is what the
  field points to afterwards. The result is the returned value, the view stored in
  \<^verbatim>\<open>*pp_peek\<close> (\<open>None\<close> when it is left alone) and the state.
\<close>

definition Peek_locked ::
  "interference list \<Rightarrow> unsigned_int \<Rightarrow> stream_sys_t \<Rightarrow>
     ((vlc_error + int) \<times> region option \<times> stream_sys_t) outcome" where
  "Peek_locked env i_peek s =
     (case PeekFromBuffer_l env (p_temp_peek s) (sint i_peek) s of
        Pending \<Rightarrow> Pending
      | Assert_fails \<Rightarrow> Assert_fails
      | Out_of_bounds \<Rightarrow> Out_of_bounds
      | Returns (i_result, p_buf', s') \<Rightarrow>
          (let s'' = s'\<lparr> p_temp_peek := p_buf' \<rparr>
           in if i_result < 0 then Returns (Inr i_result, None, s'')
              else Returns (Inr i_result, p_temp_peek s'', s'')))"

text \<open>
  \<^verbatim>\<open>Peek\<close>; \<open>realloc_ret\<close> is what \<^verbatim>\<open>realloc\<close> answers if it is called: \<open>None\<close> for a
  null pointer, else the content of the region it returns, which has \<^verbatim>\<open>i_peek\<close> bytes.
\<close>

definition Peek ::
  "interference list \<Rightarrow> bytes option \<Rightarrow> unsigned_int \<Rightarrow> stream_sys_t \<Rightarrow>
     ((vlc_error + int) \<times> region option \<times> stream_sys_t) outcome" where
  "Peek env realloc_ret i_peek s =
     (if i_temp_peek_capacity s < i_peek then
        (case realloc_ret of
           None \<Rightarrow> Returns (Inl VLC_ENOMEM, None, emit (Realloc i_peek) s)
         | Some p \<Rightarrow>
             Peek_locked env i_peek
               ((emit (Realloc i_peek) s)
                  \<lparr> p_temp_peek := Some \<lparr> r_size = uint i_peek, r_bytes = p \<rparr> \<rparr>))
      else Peek_locked env i_peek s)"

datatype query =
    STREAM_CAN_FASTSEEK
  | STREAM_CAN_SEEK
  | STREAM_GET_POSITION
  | STREAM_SET_POSITION uint64_t
  | STREAM_GET_SIZE
  | STREAM_GET_CACHED_SIZE
  | STREAM_other

datatype reply = Reply_bool bool | Reply_uint64 uint64_t | No_reply

fun Control :: "query \<Rightarrow> stream_sys_t \<Rightarrow> (vlc_error + reply) \<times> stream_sys_t" where
  "Control STREAM_CAN_FASTSEEK s = (Inr (Reply_bool False), s)"
| "Control STREAM_CAN_SEEK s = (Inr (Reply_bool (b_can_seek s)), s)"
| "Control STREAM_GET_POSITION s =
     (if b_seek_request s then (Inr (Reply_uint64 (i_seek_pos s)), s)
      else (Inr (Reply_uint64 (i_stream_offset s)), s))"
| "Control (STREAM_SET_POSITION pos) s =
     (if b_can_seek s then
        (Inr No_reply,
         emit (Cond_broadcast wakeup_write_cond) (s\<lparr> i_seek_pos := pos, b_seek_request := True \<rparr>))
      else (Inl VLC_EGENERIC, s))"
| "Control STREAM_GET_SIZE s = (Inr (Reply_uint64 (i_stream_size s)), s)"
| "Control STREAM_GET_CACHED_SIZE s =
     (Inr (Reply_uint64 (i_stream_offset s + word_of_int (i_buffer_size s))), s)"
| "Control STREAM_other s = (Inl VLC_EGENERIC, s)"

text \<open>
  \<^verbatim>\<open>Open\<close>, up to the start of the producer. The record holds what the caller and the
  source answer. A failure (\<^verbatim>\<open>EXIT_FAIL\<close>) is \<open>None\<close>.
\<close>

record open_io =
  o_has_source :: bool
  o_source_has_source :: bool
  o_enabled :: bool
  o_malloc_ok :: bool
  o_blocks :: "int \<Rightarrow> bytes"
  o_stream_size :: uint64_t
  o_can_fastseek :: bool
  o_can_seek :: bool
  o_clone_ok :: bool

definition Open :: "open_io \<Rightarrow> stream_sys_t option" where
  "Open io =
     (if \<not> o_has_source io then None
      else if o_source_has_source io then None
      else if \<not> o_enabled io then None
      else
        (case sys_Alloc (o_malloc_ok io) (o_blocks io) of
           None \<Rightarrow> None
         | Some p_sys \<Rightarrow>
             (let p_sys1 = p_sys\<lparr> i_stream_size := o_stream_size io \<rparr>
              in if i_stream_size p_sys1 \<le> 0 then None
                 else
                   (let p_sys2 = p_sys1\<lparr> b_can_fastseek := o_can_fastseek io,
                                           b_can_seek := o_can_seek io \<rparr>
                    in if \<not> o_clone_ok io then None else Some p_sys2))))"

text \<open>\<^verbatim>\<open>Close\<close>, up to the cancellation of the producer.\<close>

definition Close :: "stream_sys_t \<Rightarrow> stream_sys_t" where
  "Close s =
     emit (Cond_broadcast wakeup_read_cond)
       (emit (Cond_broadcast wakeup_write_cond) (s\<lparr> b_abort := True \<rparr>))"

subsection \<open>The filter as a transition system\<close>

text \<open>
  The two threads interleave at the granularity of the critical sections. An action is a
  call of the consumer that returns without waiting, or a section of the producer's loop.
  A call that has to wait is an action that is not enabled (\<open>None\<close>): while it waits it
  changes nothing but \<open>events\<close> (and, for \<^verbatim>\<open>Peek\<close>, the scratch pointer it has just
  reallocated), and it takes effect when the state lets it return. An action whose copy
  would leave a region is not enabled either: the system has the defined runs only. The
  caller's buffer of \<^verbatim>\<open>Read\<close> is part of the action. The seek block is split
  where the mutex is released between its two critical sections: \<open>Producer_classify\<close>,
  then \<open>Producer_commit\<close> with the \<^verbatim>\<open>b_long_seek\<close> found earlier, or
  \<open>Producer_seek_failed\<close>; all three run only on a pending request, which nothing but the
  commit clears. The producer's sections may follow each other in any order here, so the
  system has the runs of the code at this granularity and more. The runs used as examples
  below take the producer's sections in the order of the code (a section that would
  change nothing but \<open>events\<close> is sometimes left out).
\<close>

datatype action =
    Call_Read "region option" unsigned_int
  | Call_Peek "bytes option" unsigned_int
  | Call_Control query
  | Call_Close
  | Producer_tell uint64_t
  | Producer_eos
  | Producer_classify
  | Producer_commit bool
  | Producer_seek_failed
  | Producer_read int bytes
  | Producer_exit

fun perform :: "action \<Rightarrow> stream_sys_t \<Rightarrow> stream_sys_t option" where
  "perform (Call_Read p_buf i_read) s =
     (case Read [] p_buf i_read s of Returns (r, b, s') \<Rightarrow> Some s' | _ \<Rightarrow> None)"
| "perform (Call_Peek realloc_ret i_peek) s =
     (case Peek [] realloc_ret i_peek s of Returns (r, b, s') \<Rightarrow> Some s' | _ \<Rightarrow> None)"
| "perform (Call_Control q) s = Some (snd (Control q s))"
| "perform Call_Close s = Some (Close s)"
| "perform (Producer_tell i_source_offset) s = Some (BufferThread_tell i_source_offset s)"
| "perform Producer_eos s =
     (case BufferThread_eos [] s of Returns (f, s') \<Rightarrow> Some s' | _ \<Rightarrow> None)"
| "perform Producer_classify s =
     (if b_seek_request s then Some (snd (seek_classify s)) else None)"
| "perform (Producer_commit b_long_seek) s =
     (if b_seek_request s then
        Some (seek_commit b_long_seek
                (if b_long_seek then emit (Stream_Seek (i_seek_pos s)) s else s))
      else None)"
| "perform Producer_seek_failed s =
     (if b_seek_request s then Some ((emit (Stream_Seek (i_seek_pos s)) s)\<lparr> b_error := True \<rparr>)
      else None)"
| "perform (Producer_read i_read_ret buf) s =
     (if i_read_ret > BYTES_PER_READ then None
      else (case BufferThread_read [] i_read_ret buf s of
              Returns (f, s') \<Rightarrow> Some s'
            | _ \<Rightarrow> None))"
| "perform Producer_exit s = Some (BufferThread_exit s)"

fun run :: "action list \<Rightarrow> stream_sys_t \<Rightarrow> stream_sys_t option" where
  "run [] s = Some s"
| "run (a # as) s = (case perform a s of None \<Rightarrow> None | Some s' \<Rightarrow> run as s')"

inductive reachable :: "stream_sys_t \<Rightarrow> bool" where
  opened: "Open io = Some s \<Longrightarrow> reachable s"
| performed: "reachable s \<Longrightarrow> perform a s = Some s' \<Longrightarrow> reachable s'"

subsection \<open>Example inputs\<close>

text \<open>
  A filter opened on a seekable source of 1 TiB, with blocks that hold zeros, and the state
  \<^verbatim>\<open>Open\<close> leaves.
\<close>

definition zero_blocks :: "int \<Rightarrow> bytes" where
  "zero_blocks = (\<lambda>b k. 0)"

definition open_1TiB :: open_io where
  "open_1TiB = \<lparr> o_has_source = True, o_source_has_source = False, o_enabled = True,
                  o_malloc_ok = True, o_blocks = zero_blocks, o_stream_size = 1099511627776,
                  o_can_fastseek = False, o_can_seek = True, o_clone_ok = True \<rparr>"

definition sys_1TiB :: stream_sys_t where
  "sys_1TiB = \<lparr> i_stream_size = 1099511627776, b_can_fastseek = False, b_can_seek = True,
                  b_error = False, b_abort = False, p_buffer = zero_blocks, i_capacity = 0,
                  i_cache_index = 0, i_cache_size = 0, i_cache_offset = 0,
                  i_buffer_size = 0, i_read_index = 0, i_write_index = 0,
                  i_seek_pos = 0, b_seek_request = False, i_stream_offset = 0,
                  b_buffered_eos = False, p_temp_peek = None, i_temp_peek_capacity = 0,
                  events = [] \<rparr>"

text \<open>
  A seek request posted through \<^verbatim>\<open>Control\<close>, and a state with 64 KiB cached of which
  the consumer has read the first 32 KiB.
\<close>

definition seek_pending_at :: "uint64_t \<Rightarrow> stream_sys_t \<Rightarrow> stream_sys_t" where
  "seek_pending_at pos s = snd (Control (STREAM_SET_POSITION pos) s)"

definition sys_cached :: stream_sys_t where
  "sys_cached = sys_1TiB \<lparr> i_cache_size := 65536, i_buffer_size := 32768,
                            i_read_index := 32768, i_write_index := 65536,
                            i_stream_offset := 32768 \<rparr>"

text \<open>
  Bytes that are all zero, and the state after a long seek to 2 MiB that the source answers
  with a read of no bytes: the cached range is empty.
\<close>

definition zero_bytes :: bytes where
  "zero_bytes = (\<lambda>k. 0)"

definition sys_empty_window :: stream_sys_t where
  "sys_empty_window =
     sys_1TiB \<lparr> i_cache_offset := 2097152, i_read_index := 2097152, i_write_index := 2097152,
                 i_stream_offset := 2097152, b_buffered_eos := True,
                 events := [Cond_broadcast wakeup_write_cond, Stream_Seek 2097152,
                            Stream_Read BYTES_PER_READ] \<rparr>"

text \<open>
  The state after a long seek to 5 MiB + 1 and one write of 32 KiB.
\<close>

definition sys_after_long_seek :: stream_sys_t where
  "sys_after_long_seek =
     sys_1TiB \<lparr> p_buffer := fst (the (write_copy \<lparr> r_size = BYTES_PER_READ, r_bytes = zero_bytes \<rparr>
                                         32768 zero_blocks 5242881 0)),
                 i_cache_size := 32768, i_cache_offset := 5242881, i_buffer_size := 32768,
                 i_read_index := 5242881, i_write_index := 5275649,
                 i_stream_offset := 5242881,
                 events := [Cond_broadcast wakeup_write_cond, Stream_Seek 5242881,
                            Stream_Read BYTES_PER_READ, Cond_broadcast wakeup_read_cond] \<rparr>"

text \<open>
  A run in which the consumer keeps up with the producer: in round \<open>k\<close> the producer
  makes one pass of its loop (the source is at offset \<open>32768 * k\<close> and answers a full
  read of 32 KiB, which is written to the ring) and the consumer reads the 32 KiB.
  \<open>kept_up k\<close> describes the state after \<open>k\<close> rounds, for \<open>k\<close> up to 320.
\<close>

definition pump_round :: "nat \<Rightarrow> action list" where
  "pump_round k = [Producer_tell (word_of_int (32768 * int k)), Producer_eos,
              Producer_read 32768 zero_bytes, Call_Read None 32768]"

definition pump_rounds :: "nat \<Rightarrow> action list" where
  "pump_rounds k = concat (map pump_round [0..<k])"

definition after_rounds :: "nat \<Rightarrow> stream_sys_t" where
  "after_rounds k = the (run (pump_rounds k) sys_1TiB)"

definition kept_up :: "nat \<Rightarrow> stream_sys_t \<Rightarrow> bool" where
  "kept_up k s \<longleftrightarrow>
     i_stream_size s = 1099511627776 \<and> b_can_seek s \<and>
     \<not> b_abort s \<and> \<not> b_error s \<and> \<not> b_seek_request s \<and> \<not> b_buffered_eos s \<and>
     i_cache_index s = 0 \<and> i_cache_offset s = 0 \<and> i_cache_size s = 32768 * int k \<and>
     i_buffer_size s = 0 \<and>
     i_read_index s = (32768 * int k) mod RING_TOTAL_CAPACITY \<and>
     i_write_index s = (32768 * int k) mod RING_TOTAL_CAPACITY \<and>
     i_stream_offset s = word_of_int (32768 * int k)"

text \<open>
  A state in which the unread bytes fill the ring up to the producer's limit, and the state
  reached from 320 rounds of the run above by a short seek back to offset 33792 (which
  makes 10451968 bytes unread again) and a further seek request.
\<close>

definition sys_live_full :: stream_sys_t where
  "sys_live_full = sys_1TiB \<lparr> i_cache_size := 9404416, i_buffer_size := 9404416,
                               i_write_index := 9404416 \<rparr>"

definition sys_nearly_full :: stream_sys_t where
  "sys_nearly_full =
     seek_pending_at 0
       (snd (BufferThread_seek id id 0 (seek_pending_at 33792 (after_rounds 320))))"

subsection \<open>The content of the ring\<close>

text \<open>
  The byte the ring holds at a position: the copy loops find position \<open>pos\<close> in block
  \<^verbatim>\<open>pos / RING_BLOCK_SIZE\<close> at offset \<^verbatim>\<open>pos % RING_BLOCK_SIZE\<close>.
\<close>

definition ring_byte :: "(int \<Rightarrow> bytes) \<Rightarrow> int \<Rightarrow> uint8_t" where
  "ring_byte blocks pos = blocks (pos sdiv RING_BLOCK_SIZE) (pos smod RING_BLOCK_SIZE)"

subsection \<open>More example inputs\<close>

text \<open>
  The state after the source has failed its first read and the producer has left its
  loop, and the state with 64 KiB cached in which the source, 64 KiB long, is at its end.
\<close>

definition sys_source_failed :: stream_sys_t where
  "sys_source_failed =
     sys_1TiB \<lparr> b_error := True, b_buffered_eos := True,
                 events := [Stream_Tell, Stream_Read BYTES_PER_READ,
                            Cond_broadcast wakeup_read_cond] \<rparr>"

definition sys_cached_eos :: stream_sys_t where
  "sys_cached_eos = sys_cached \<lparr> i_stream_size := 65536, b_buffered_eos := True \<rparr>"

text \<open>
  What the source answers to an iteration of the producer in which its read fails.
\<close>

definition io_source_fails :: iteration_io where
  "io_source_fails = \<lparr> io_tell = 0, io_eos_env = [], io_gap = id, io_seek_gap = id,
                         io_seek_ret = 0, io_read_ret = - 1,
                         io_buf = zero_bytes, io_write_env = [] \<rparr>"

subsection \<open>Seek requests and consumption in a run\<close>

text \<open>
  The actions that post a seek request and that complete one, and the number of bytes the
  consumer is handed by an action and by a run: what its calls of \<^verbatim>\<open>Read\<close> return.
\<close>

fun posts_seek :: "action \<Rightarrow> bool" where
  "posts_seek (Call_Control (STREAM_SET_POSITION pos)) = True"
| "posts_seek a = False"

fun completes_seek :: "action \<Rightarrow> bool" where
  "completes_seek (Producer_commit b_long_seek) = True"
| "completes_seek a = False"

fun consumed :: "action \<Rightarrow> stream_sys_t \<Rightarrow> int" where
  "consumed (Call_Read p_buf i_read) s =
     (case Read [] p_buf i_read s of
        Returns (i_result, b, s') \<Rightarrow> if i_result < 0 then 0 else i_result
      | _ \<Rightarrow> 0)"
| "consumed a s = 0"

fun consumed_run :: "action list \<Rightarrow> stream_sys_t \<Rightarrow> int" where
  "consumed_run [] s = 0"
| "consumed_run (a # as) s =
     (case perform a s of None \<Rightarrow> 0 | Some s' \<Rightarrow> consumed a s + consumed_run as s')"

subsection \<open>Example inputs of the producer\<close>

text \<open>
  What the source and the consumer supply to the iteration of the producer that follows
  the short seek to 33792: the source is at offset 10 MiB and answers a full read; during
  the producer's first timed wait the consumer posts a seek to 0 and starts a read, and
  from then on it only waits, \<open>k\<close> more times.
\<close>

definition io_full_write :: "nat \<Rightarrow> iteration_io" where
  "io_full_write k =
     \<lparr> io_tell = 10485760, io_eos_env = [], io_gap = id, io_seek_gap = id,
       io_seek_ret = 0, io_read_ret = 32768,
       io_buf = zero_bytes,
       io_write_env = (\<lambda>s. WaitBufferForRead_wait (seek_pending_at 0 s))
                        # replicate k WaitBufferForRead_wait \<rparr>"

text \<open>
  What the source answers to an iteration in which a seek succeeds and the read that follows
  returns no bytes.
\<close>

definition io_seek_to_end :: iteration_io where
  "io_seek_to_end = \<lparr> io_tell = 0, io_eos_env = [], io_gap = id, io_seek_gap = id,
                        io_seek_ret = 0, io_read_ret = 0,
                        io_buf = zero_bytes, io_write_env = [] \<rparr>"

section \<open>Properties\<close>

subsection \<open>Basic facts\<close>

lemma Open_1TiB: "Open open_1TiB = Some sys_1TiB"
  by (simp add: Open_def open_1TiB_def sys_1TiB_def sys_Alloc_def)

declare peek_copy.simps [simp del] write_copy.simps [simp del]

lemma smod_nonneg: "0 \<le> a \<Longrightarrow> 0 < b \<Longrightarrow> (a :: int) smod b = a mod b"
  by (simp add: smod_int_alt_def sgn_if)

lemma sdiv_nonneg: "0 \<le> a \<Longrightarrow> 0 < b \<Longrightarrow> (a :: int) sdiv b = a div b"
  by (cases "a = 0") (simp_all add: signed_divide_int_def sgn_if)

lemma same_block:
  assumes "0 \<le> idx" and "0 \<le> d" and "d < RING_BLOCK_SIZE - idx mod RING_BLOCK_SIZE"
  shows "(idx + d) div RING_BLOCK_SIZE = idx div RING_BLOCK_SIZE"
    and "(idx + d) mod RING_BLOCK_SIZE = idx mod RING_BLOCK_SIZE + d"
proof -
  have e: "idx + d = RING_BLOCK_SIZE * (idx div RING_BLOCK_SIZE) + (idx mod RING_BLOCK_SIZE + d)"
    by simp
  have r: "0 \<le> idx mod RING_BLOCK_SIZE + d" "idx mod RING_BLOCK_SIZE + d < RING_BLOCK_SIZE"
    using assms by (simp_all add: RING_BLOCK_SIZE_def)
  show "(idx + d) div RING_BLOCK_SIZE = idx div RING_BLOCK_SIZE"
    using e r by (rule int_div_pos_eq)
  show "(idx + d) mod RING_BLOCK_SIZE = idx mod RING_BLOCK_SIZE + d"
    using e r by (rule int_mod_pos_eq)
qed

lemma block_end_in_ring:
  assumes "0 \<le> idx" and "idx < RING_TOTAL_CAPACITY"
  shows "idx + (RING_BLOCK_SIZE - idx mod RING_BLOCK_SIZE) \<le> RING_TOTAL_CAPACITY"
proof -
  have "idx div RING_BLOCK_SIZE \<le> (RING_TOTAL_CAPACITY - 1) div RING_BLOCK_SIZE"
    using assms by (intro zdiv_mono1) (simp_all add: ring_consts)
  then have "idx div RING_BLOCK_SIZE + 1 \<le> RING_BLOCK_COUNT" by (simp add: ring_consts)
  then have "RING_BLOCK_SIZE * (idx div RING_BLOCK_SIZE + 1) \<le> RING_BLOCK_SIZE * RING_BLOCK_COUNT"
    by (simp add: RING_BLOCK_SIZE_def)
  moreover have "idx + (RING_BLOCK_SIZE - idx mod RING_BLOCK_SIZE) =
                 RING_BLOCK_SIZE * (idx div RING_BLOCK_SIZE + 1)"
    by (simp add: algebra_simps minus_mod_eq_mult_div [symmetric])
  ultimately show ?thesis by (simp add: RING_TOTAL_CAPACITY_def)
qed

text \<open>
  A position of the ring lies in one of the ten blocks, and the bytes copied in one pass
  of a copy loop lie in that block.
\<close>

lemma ring_block_of_position:
  assumes "0 \<le> idx" and "idx < RING_TOTAL_CAPACITY"
  shows "ring_block blocks (idx div RING_BLOCK_SIZE) =
           Some \<lparr> r_size = RING_BLOCK_SIZE, r_bytes = blocks (idx div RING_BLOCK_SIZE) \<rparr>"
    and "idx smod RING_BLOCK_SIZE = idx mod RING_BLOCK_SIZE"
    and "idx sdiv RING_BLOCK_SIZE = idx div RING_BLOCK_SIZE"
    and "0 \<le> idx mod RING_BLOCK_SIZE" and "idx mod RING_BLOCK_SIZE < RING_BLOCK_SIZE"
proof -
  have bs: "0 < RING_BLOCK_SIZE" by (simp add: ring_consts)
  show d: "idx sdiv RING_BLOCK_SIZE = idx div RING_BLOCK_SIZE"
    using assms(1) bs by (rule sdiv_nonneg)
  show "idx smod RING_BLOCK_SIZE = idx mod RING_BLOCK_SIZE"
    using assms(1) bs by (rule smod_nonneg)
  show "0 \<le> idx mod RING_BLOCK_SIZE" "idx mod RING_BLOCK_SIZE < RING_BLOCK_SIZE"
    using bs by simp_all
  have "idx div RING_BLOCK_SIZE \<le> (RING_TOTAL_CAPACITY - 1) div RING_BLOCK_SIZE"
    using assms by (intro zdiv_mono1) (simp_all add: ring_consts)
  then have "idx div RING_BLOCK_SIZE < RING_BLOCK_COUNT" by (simp add: ring_consts)
  moreover have "0 \<le> idx div RING_BLOCK_SIZE"
    using assms(1) bs by (simp add: pos_imp_zdiv_nonneg_iff)
  ultimately show "ring_block blocks (idx div RING_BLOCK_SIZE) =
           Some \<lparr> r_size = RING_BLOCK_SIZE, r_bytes = blocks (idx div RING_BLOCK_SIZE) \<rparr>"
    by (simp add: ring_block_def)
qed

lemma i_copy_min: "(if b < c then b else c) = min c (b :: int)"
  by auto

lemma write_copy_step:
  assumes "filled < n" and "0 \<le> idx" and "idx < RING_TOTAL_CAPACITY" and "0 \<le> filled"
      and "n \<le> r_size buf"
  shows "write_copy buf n blocks idx filled =
           write_copy buf n
             (blocks (idx div RING_BLOCK_SIZE :=
                (\<lambda>k. if idx mod RING_BLOCK_SIZE \<le> k \<and>
                         k < idx mod RING_BLOCK_SIZE +
                             min (n - filled) (RING_BLOCK_SIZE - idx mod RING_BLOCK_SIZE)
                      then r_bytes buf (filled + (k - idx mod RING_BLOCK_SIZE))
                      else blocks (idx div RING_BLOCK_SIZE) k)))
             ((idx + min (n - filled) (RING_BLOCK_SIZE - idx mod RING_BLOCK_SIZE))
                mod RING_TOTAL_CAPACITY)
             (filled + min (n - filled) (RING_BLOCK_SIZE - idx mod RING_BLOCK_SIZE))"
proof -
  define c where "c = min (n - filled) (RING_BLOCK_SIZE - idx mod RING_BLOCK_SIZE)"
  note p = ring_block_of_position [OF assms(2,3)]
  have c: "0 < c" "filled + c \<le> r_size buf" "idx mod RING_BLOCK_SIZE + c \<le> RING_BLOCK_SIZE"
    using assms(1,5) p(5) by (simp_all add: c_def)
  have m: "(idx + c) smod RING_TOTAL_CAPACITY = (idx + c) mod RING_TOTAL_CAPACITY"
    using assms(2) c(1) by (intro smod_nonneg) (simp_all add: ring_consts)
  show ?thesis
    unfolding c_def [symmetric]
    using assms(1,4) c p(4)
    by (subst write_copy.simps)
       (simp add: Let_def i_copy_min p(1,2,3) memcpy_def m c_def [symmetric] cong: if_cong)
qed

lemma write_copy_returns:
  assumes "0 \<le> idx" and "idx < RING_TOTAL_CAPACITY" and "0 \<le> filled" and "filled \<le> n"
      and "n \<le> r_size buf"
  shows "\<exists>blocks'. write_copy buf n blocks idx filled = Some (blocks', n)"
  using assms
proof (induction "nat (n - filled)" arbitrary: blocks idx filled rule: less_induct)
  case less
  show ?case
  proof (cases "filled < n")
    case False
    with less.prems show ?thesis by (subst write_copy.simps) simp
  next
    case True
    define c where "c = min (n - filled) (RING_BLOCK_SIZE - idx mod RING_BLOCK_SIZE)"
    have c: "0 < c" "filled + c \<le> n"
      using True by (simp_all add: c_def ring_consts)
    have "\<exists>blocks'. write_copy buf n bl ((idx + c) mod RING_TOTAL_CAPACITY) (filled + c)
                       = Some (blocks', n)" for bl
      using c less.prems by (intro less.hyps) (simp_all add: ring_consts)
    then show ?thesis
      using write_copy_step [OF True less.prems(1,2,3,5), of blocks]
      by (simp add: c_def)
  qed
qed

lemma peek_copy_null:
  "i_data_filled \<le> i_to_read \<Longrightarrow>
   peek_copy blocks i_to_read None i_index i_data_filled = Some (None, i_to_read)"
proof (induction "nat (i_to_read - i_data_filled)" arbitrary: i_index i_data_filled
        rule: less_induct)
  case less
  show ?case
  proof (cases "i_data_filled < i_to_read")
    case False
    with less.prems show ?thesis by (subst peek_copy.simps) simp
  next
    case True
    define c where
      "c = min (i_to_read - i_data_filled) (RING_BLOCK_SIZE - i_index smod RING_BLOCK_SIZE)"
    have c: "0 < c" "i_data_filled + c \<le> i_to_read"
      using True smod_block_less [of i_index] by (simp_all add: c_def)
    have "peek_copy blocks i_to_read None ((i_index + c) smod RING_TOTAL_CAPACITY)
            (i_data_filled + c) = Some (None, i_to_read)"
      using c by (intro less.hyps) simp_all
    then show ?thesis
      using True by (subst peek_copy.simps) (simp add: Let_def i_copy_min c_def)
  qed
qed

text \<open>
  One pass of the copy loop of \<^verbatim>\<open>PeekFromBuffer_l\<close> with a destination: it is defined
  when the destination has room for the bytes of the pass, and not otherwise.
\<close>

lemma peek_copy_step:
  assumes "filled < n" and "0 \<le> idx" and "idx < RING_TOTAL_CAPACITY" and "0 \<le> filled"
  shows "peek_copy blocks n (Some dst) idx filled =
           (if filled + min (n - filled) (RING_BLOCK_SIZE - idx mod RING_BLOCK_SIZE) \<le> r_size dst
            then peek_copy blocks n
                   (Some (dst\<lparr> r_bytes :=
                      (\<lambda>k. if filled \<le> k \<and>
                               k < filled +
                                   min (n - filled) (RING_BLOCK_SIZE - idx mod RING_BLOCK_SIZE)
                            then blocks (idx div RING_BLOCK_SIZE)
                                   (idx mod RING_BLOCK_SIZE + (k - filled))
                            else r_bytes dst k) \<rparr>))
                   ((idx + min (n - filled) (RING_BLOCK_SIZE - idx mod RING_BLOCK_SIZE))
                      mod RING_TOTAL_CAPACITY)
                   (filled + min (n - filled) (RING_BLOCK_SIZE - idx mod RING_BLOCK_SIZE))
            else None)"
proof -
  define c where "c = min (n - filled) (RING_BLOCK_SIZE - idx mod RING_BLOCK_SIZE)"
  note p = ring_block_of_position [OF assms(2,3)]
  have c: "0 < c" "idx mod RING_BLOCK_SIZE + c \<le> RING_BLOCK_SIZE"
    using assms(1) p(5) by (simp_all add: c_def)
  have m: "(idx + c) smod RING_TOTAL_CAPACITY = (idx + c) mod RING_TOTAL_CAPACITY"
    using assms(2) c(1) by (intro smod_nonneg) (simp_all add: ring_consts)
  show ?thesis
    unfolding c_def [symmetric]
    using assms(1,4) c p(4)
    by (subst peek_copy.simps)
       (simp add: Let_def i_copy_min p(1,2,3) memcpy_def m c_def [symmetric] cong: if_cong)
qed

text \<open>
  The copy loop of \<^verbatim>\<open>PeekFromBuffer_l\<close> with a destination that has room for the count:
  it stores the bytes of the ring from the read index on. With a destination that is
  smaller than the count, a copy leaves it.
\<close>

lemma peek_copy_bytes:
  assumes "0 \<le> idx" and "idx < RING_TOTAL_CAPACITY" and "0 \<le> filled" and "filled \<le> n"
      and "n \<le> r_size dst"
  shows "peek_copy blocks n (Some dst) idx filled =
           Some (Some (dst\<lparr> r_bytes :=
                   (\<lambda>j. if filled \<le> j \<and> j < n
                         then ring_byte blocks ((idx + (j - filled)) mod RING_TOTAL_CAPACITY)
                         else r_bytes dst j) \<rparr>), n)"
  using assms
proof (induction "nat (n - filled)" arbitrary: idx filled dst rule: less_induct)
  case less
  show ?case
  proof (cases "filled < n")
    case False
    have e: "(\<lambda>j. if filled \<le> j \<and> j < n
                  then ring_byte blocks ((idx + (j - filled)) mod RING_TOTAL_CAPACITY)
                  else r_bytes dst j) = r_bytes dst"
      using False by (auto simp: fun_eq_iff)
    show ?thesis
      using False less.prems(4) unfolding e by (subst peek_copy.simps) simp
  next
    case True
    define off where "off = idx mod RING_BLOCK_SIZE"
    define c where "c = min (n - filled) (RING_BLOCK_SIZE - off)"
    define dst1 where
      "dst1 = dst\<lparr> r_bytes :=
                (\<lambda>k. if filled \<le> k \<and> k < filled + c
                      then blocks (idx div RING_BLOCK_SIZE) (off + (k - filled))
                      else r_bytes dst k) \<rparr>"
    define idx' where "idx' = (idx + c) mod RING_TOTAL_CAPACITY"
    have bs: "0 < RING_BLOCK_SIZE" "0 < RING_TOTAL_CAPACITY" by (simp_all add: ring_consts)
    have off: "0 \<le> off" "off < RING_BLOCK_SIZE"
      using bs by (simp_all add: off_def)
    have ic: "0 < c" "c \<le> n - filled" "c \<le> RING_BLOCK_SIZE - off"
      using True off by (simp_all add: c_def)
    have idx': "0 \<le> idx'" "idx' < RING_TOTAL_CAPACITY"
      using bs by (simp_all add: idx'_def)
    have room: "filled + c \<le> r_size dst"
      using ic less.prems(5) by simp
    have step: "peek_copy blocks n (Some dst) idx filled =
                peek_copy blocks n (Some dst1) idx' (filled + c)"
      using peek_copy_step [OF True less.prems(1,2,3), of blocks dst] room
      unfolding c_def off_def dst1_def idx'_def by simp
    have IH: "peek_copy blocks n (Some dst1) idx' (filled + c) =
                Some (Some (dst1\<lparr> r_bytes :=
                        (\<lambda>j. if filled + c \<le> j \<and> j < n
                              then ring_byte blocks
                                     ((idx' + (j - (filled + c))) mod RING_TOTAL_CAPACITY)
                              else r_bytes dst1 j) \<rparr>), n)"
      using ic less.prems idx' by (intro less.hyps) (simp_all add: dst1_def)
    have "(if filled + c \<le> j \<and> j < n
           then ring_byte blocks ((idx' + (j - (filled + c))) mod RING_TOTAL_CAPACITY)
           else r_bytes dst1 j) =
          (if filled \<le> j \<and> j < n
           then ring_byte blocks ((idx + (j - filled)) mod RING_TOTAL_CAPACITY)
           else r_bytes dst j)" for j
    proof -
      consider "j < filled \<or> n \<le> j" | "filled \<le> j" "j < filled + c"
        | "filled + c \<le> j" "j < n"
        using ic by linarith
      then show ?thesis
      proof cases
        case 1
        then show ?thesis using ic by (auto simp: dst1_def)
      next
        case 2
        have d: "0 \<le> j - filled" "j - filled < RING_BLOCK_SIZE - idx mod RING_BLOCK_SIZE"
          using 2 ic by (simp_all add: off_def)
        have "idx + (j - filled) < RING_TOTAL_CAPACITY"
          using block_end_in_ring [OF less.prems(1,2)] d by linarith
        then have m: "(idx + (j - filled)) mod RING_TOTAL_CAPACITY = idx + (j - filled)"
          using less.prems(1) d by (simp add: mod_pos_pos_trivial)
        have nn: "0 \<le> idx + (j - filled)" using less.prems(1) d by simp
        have "ring_byte blocks (idx + (j - filled)) =
              blocks (idx div RING_BLOCK_SIZE) (off + (j - filled))"
          using same_block [OF less.prems(1) d] nn bs
          by (simp add: ring_byte_def smod_nonneg sdiv_nonneg off_def)
        then show ?thesis
          using 2 ic True by (simp add: m dst1_def)
      next
        case 3
        have "(idx' + (j - (filled + c))) mod RING_TOTAL_CAPACITY =
              ((idx + c) mod RING_TOTAL_CAPACITY + (j - (filled + c)))
                mod RING_TOTAL_CAPACITY"
          by (simp only: idx'_def)
        also have "\<dots> = ((idx + c) + (j - (filled + c))) mod RING_TOTAL_CAPACITY"
          by (rule mod_add_left_eq)
        also have "(idx + c) + (j - (filled + c)) = idx + (j - filled)"
          by simp
        finally show ?thesis using 3 ic by simp
      qed
    qed
    then have "dst1\<lparr> r_bytes :=
                 (\<lambda>j. if filled + c \<le> j \<and> j < n
                       then ring_byte blocks
                              ((idx' + (j - (filled + c))) mod RING_TOTAL_CAPACITY)
                       else r_bytes dst1 j) \<rparr> =
               dst\<lparr> r_bytes :=
                 (\<lambda>j. if filled \<le> j \<and> j < n
                       then ring_byte blocks ((idx + (j - filled)) mod RING_TOTAL_CAPACITY)
                       else r_bytes dst j) \<rparr>"
      by (simp add: dst1_def)
    then show ?thesis
      unfolding step IH by simp
  qed
qed

lemma peek_copy_from_start:
  assumes "0 \<le> idx" and "idx < RING_TOTAL_CAPACITY" and "0 \<le> n" and "n \<le> r_size dst"
  shows "peek_copy blocks n (Some dst) idx 0 =
           Some (Some (dst\<lparr> r_bytes :=
                   (\<lambda>j. if 0 \<le> j \<and> j < n
                         then ring_byte blocks ((idx + j) mod RING_TOTAL_CAPACITY)
                         else r_bytes dst j) \<rparr>), n)"
  using peek_copy_bytes [OF assms(1,2) order_refl assms(3,4), of blocks]
  by (simp cong: if_cong)

lemma peek_copy_overrun:
  assumes "0 \<le> idx" and "idx < RING_TOTAL_CAPACITY" and "0 \<le> filled" and "filled < n"
      and "r_size dst < n"
  shows "peek_copy blocks n (Some dst) idx filled = None"
  using assms
proof (induction "nat (n - filled)" arbitrary: idx filled dst rule: less_induct)
  case less
  define c where "c = min (n - filled) (RING_BLOCK_SIZE - idx mod RING_BLOCK_SIZE)"
  have c: "0 < c"
    using less.prems(4) by (simp add: c_def ring_consts)
  show ?case
  proof (cases "filled + c \<le> r_size dst")
    case False
    then show ?thesis
      using peek_copy_step [OF less.prems(4,1,2,3), of blocks dst] by (simp add: c_def)
  next
    case True
    have "peek_copy blocks n (Some d) ((idx + c) mod RING_TOTAL_CAPACITY) (filled + c) = None"
      if "r_size d = r_size dst" for d
      using c True less.prems that by (intro less.hyps) (simp_all add: ring_consts)
    then show ?thesis
      using peek_copy_step [OF less.prems(4,1,2,3), of blocks dst] True by (simp add: c_def)
  qed
qed

lemma run_append:
  "run (as @ bs) s = (case run as s of None \<Rightarrow> None | Some s' \<Rightarrow> run bs s')"
  by (induction as arbitrary: s) (auto split: option.splits)

lemma run_reachable: "reachable s \<Longrightarrow> run as s = Some s' \<Longrightarrow> reachable s'"
  by (induction as arbitrary: s) (auto split: option.splits intro: reachable.performed)

lemma seek_classify_class:
  "seek_class_of (fst (seek_classify s)) =
     (if i_seek_pos s < i_cache_offset s \<or>
         i_seek_pos s \<ge> i_cache_offset s + word_of_int (i_cache_size s) + word_of_int RING_SEEK_THRESHOLD
      then Long_seek
      else if i_seek_pos s < i_cache_offset s + word_of_int (i_cache_size s) then Short_seek
      else Middle_seek)"
  by (simp add: seek_classify_def Let_def)

lemma BufferThread_seek_short:
  "b_seek_request s \<Longrightarrow> seek_class_of (fst (seek_classify s)) = Short_seek \<Longrightarrow>
   BufferThread_seek gap seek_gap r s = (Continue, seek_commit False (gap s))"
  by (auto simp: BufferThread_seek_def seek_classify_def Let_def split: if_splits)

lemma BufferThread_seek_long:
  "b_seek_request s \<Longrightarrow> seek_class_of (fst (seek_classify s)) = Long_seek \<Longrightarrow>
   BufferThread_seek gap seek_gap r s =
     (if r < 0
      then (Break, (seek_gap (emit (Stream_Seek (i_seek_pos (gap s))) (gap s)))\<lparr> b_error := True \<rparr>)
      else (Continue,
            seek_commit True (seek_gap (emit (Stream_Seek (i_seek_pos (gap s))) (gap s)))))"
  by (auto simp: BufferThread_seek_def seek_classify_def Let_def split: if_splits)

lemma BufferThread_seek_middle:
  "b_seek_request s \<Longrightarrow> seek_class_of (fst (seek_classify s)) = Middle_seek \<Longrightarrow>
   BufferThread_seek gap seek_gap r s =
     (Continue, s\<lparr> i_read_index := i_write_index s, i_buffer_size := 0 \<rparr>)"
  by (auto simp: BufferThread_seek_def seek_classify_def Let_def split: if_splits)

lemma reachable_sys_1TiB: "reachable sys_1TiB"
  using Open_1TiB by (rule reachable.opened)

lemma reachable_seek_pending_at: "reachable s \<Longrightarrow> reachable (seek_pending_at pos s)"
  unfolding seek_pending_at_def
  by (rule reachable.performed [where a = "Call_Control (STREAM_SET_POSITION pos)"]) simp_all

subsection \<open>Seek resolution\<close>

text \<open>
  C2 (amended). When the producer resolves a pending seek, the outcome depends on the
  branch the classification took. A short seek ends with \<^verbatim>\<open>b_seek_request\<close> cleared and
  one broadcast of the consumer's condition. A long seek whose \<^verbatim>\<open>stream_Seek\<close> succeeds
  ends with \<^verbatim>\<open>b_seek_request\<close> cleared and no broadcast at all: the only event is the
  call of \<^verbatim>\<open>stream_Seek\<close>. A long seek whose \<^verbatim>\<open>stream_Seek\<close> fails sets the error flag,
  leaves the loop and leaves the request pending. A middle seek leaves the request and its
  position as they are, with no event, so that the next iteration classifies it again.

  The events and the request are those of the state the other threads leave where the
  block releases the mutex: \<open>gap s\<close> after the classification, and, on the long path,
  the state in which \<^verbatim>\<open>stream_Seek\<close> returns. When no other thread runs meanwhile these
  are \<open>s\<close> and \<open>s\<close> with the event of the call.
\<close>

theorem seek_resolution_completion:
  assumes "b_seek_request s" and "BufferThread_seek gap seek_gap i_seek_ret s = (fl, s')"
  shows "(seek_class_of (fst (seek_classify s)) = Short_seek \<longrightarrow>
            fl = Continue \<and> \<not> b_seek_request s' \<and>
            events s' = events (gap s) @ [Cond_broadcast wakeup_read_cond]) \<and>
         (seek_class_of (fst (seek_classify s)) = Long_seek \<and> 0 \<le> i_seek_ret \<longrightarrow>
            fl = Continue \<and> \<not> b_seek_request s' \<and>
            events s' = events (seek_gap (emit (Stream_Seek (i_seek_pos (gap s))) (gap s)))) \<and>
         (seek_class_of (fst (seek_classify s)) = Long_seek \<and> i_seek_ret < 0 \<longrightarrow>
            fl = Break \<and> b_error s' \<and>
            b_seek_request s' =
              b_seek_request (seek_gap (emit (Stream_Seek (i_seek_pos (gap s))) (gap s))) \<and>
            i_seek_pos s' =
              i_seek_pos (seek_gap (emit (Stream_Seek (i_seek_pos (gap s))) (gap s)))) \<and>
         (seek_class_of (fst (seek_classify s)) = Middle_seek \<longrightarrow>
            fl = Continue \<and> b_seek_request s' \<and> i_seek_pos s' = i_seek_pos s \<and>
            events s' = events s) \<and>
         (gap = id \<and> seek_gap = id \<longrightarrow>
            (seek_class_of (fst (seek_classify s)) = Short_seek \<longrightarrow>
               events s' = events s @ [Cond_broadcast wakeup_read_cond]) \<and>
            (seek_class_of (fst (seek_classify s)) = Long_seek \<and> 0 \<le> i_seek_ret \<longrightarrow>
               events s' = events s @ [Stream_Seek (i_seek_pos s)]) \<and>
            (seek_class_of (fst (seek_classify s)) = Long_seek \<and> i_seek_ret < 0 \<longrightarrow>
               b_seek_request s' \<and> i_seek_pos s' = i_seek_pos s))"
proof (cases "seek_class_of (fst (seek_classify s))")
  case Long_seek
  with assms show ?thesis
    by (auto simp: BufferThread_seek_long seek_commit_def emit_def Let_def split: if_splits)
next
  case Short_seek
  with assms show ?thesis
    by (auto simp: BufferThread_seek_short seek_commit_def emit_def Let_def)
next
  case Middle_seek
  with assms show ?thesis
    by (auto simp: BufferThread_seek_middle)
qed


text \<open>The theorem at a short, a long (successful and failed) and a middle seek.\<close>

theorem seek_resolution_completion_witness:
  "(b_seek_request (seek_pending_at 16384 sys_cached) \<and>
    seek_class_of (fst (seek_classify (seek_pending_at 16384 sys_cached))) = Short_seek \<and>
    fst (BufferThread_seek id id 0 (seek_pending_at 16384 sys_cached)) = Continue \<and>
    \<not> b_seek_request (snd (BufferThread_seek id id 0 (seek_pending_at 16384 sys_cached))) \<and>
    events (snd (BufferThread_seek id id 0 (seek_pending_at 16384 sys_cached))) =
      [Cond_broadcast wakeup_write_cond, Cond_broadcast wakeup_read_cond]) \<and>
   (b_seek_request (seek_pending_at 2097152 sys_1TiB) \<and>
    seek_class_of (fst (seek_classify (seek_pending_at 2097152 sys_1TiB))) = Long_seek \<and>
    fst (BufferThread_seek id id 0 (seek_pending_at 2097152 sys_1TiB)) = Continue \<and>
    \<not> b_seek_request (snd (BufferThread_seek id id 0 (seek_pending_at 2097152 sys_1TiB))) \<and>
    events (snd (BufferThread_seek id id 0 (seek_pending_at 2097152 sys_1TiB))) =
      [Cond_broadcast wakeup_write_cond, Stream_Seek 2097152]) \<and>
   (fst (BufferThread_seek id id (- 1) (seek_pending_at 2097152 sys_1TiB)) = Break \<and>
    b_error (snd (BufferThread_seek id id (- 1) (seek_pending_at 2097152 sys_1TiB))) \<and>
    b_seek_request (snd (BufferThread_seek id id (- 1) (seek_pending_at 2097152 sys_1TiB)))) \<and>
   (b_seek_request (seek_pending_at 100 sys_1TiB) \<and>
    seek_class_of (fst (seek_classify (seek_pending_at 100 sys_1TiB))) = Middle_seek \<and>
    fst (BufferThread_seek id id 0 (seek_pending_at 100 sys_1TiB)) = Continue \<and>
    b_seek_request (snd (BufferThread_seek id id 0 (seek_pending_at 100 sys_1TiB))) \<and>
    i_seek_pos (snd (BufferThread_seek id id 0 (seek_pending_at 100 sys_1TiB))) = 100 \<and>
    events (snd (BufferThread_seek id id 0 (seek_pending_at 100 sys_1TiB))) =
      [Cond_broadcast wakeup_write_cond])"
proof -
  have short: "b_seek_request (seek_pending_at 16384 sys_cached)"
    "seek_class_of (fst (seek_classify (seek_pending_at 16384 sys_cached))) = Short_seek"
    "events (seek_pending_at 16384 sys_cached) = [Cond_broadcast wakeup_write_cond]"
    by (simp_all add: seek_classify_class seek_pending_at_def sys_cached_def sys_1TiB_def
          emit_def ring_consts)
  have long: "b_seek_request (seek_pending_at 2097152 sys_1TiB)"
    "seek_class_of (fst (seek_classify (seek_pending_at 2097152 sys_1TiB))) = Long_seek"
    "events (seek_pending_at 2097152 sys_1TiB) = [Cond_broadcast wakeup_write_cond]"
    "i_seek_pos (seek_pending_at 2097152 sys_1TiB) = 2097152"
    by (simp_all add: seek_classify_class seek_pending_at_def sys_1TiB_def emit_def ring_consts)
  have middle: "b_seek_request (seek_pending_at 100 sys_1TiB)"
    "seek_class_of (fst (seek_classify (seek_pending_at 100 sys_1TiB))) = Middle_seek"
    "events (seek_pending_at 100 sys_1TiB) = [Cond_broadcast wakeup_write_cond]"
    "i_seek_pos (seek_pending_at 100 sys_1TiB) = 100"
    by (simp_all add: seek_classify_class seek_pending_at_def sys_1TiB_def emit_def ring_consts)
  show ?thesis
    using
      seek_resolution_completion [OF short(1) surjective_pairing, of id id 0]
      seek_resolution_completion [OF long(1) surjective_pairing, of id id 0]
      seek_resolution_completion [OF long(1) surjective_pairing, of id id "- 1"]
      seek_resolution_completion [OF middle(1) surjective_pairing, of id id 0]
    by (simp add: short long middle emit_def)
qed

text \<open>
  C2 as stated fails: the long seek to 2 MiB posted on the freshly opened filter is
  completed, the request is cleared, and the consumer's condition is not broadcast by the
  seek block. A later write would broadcast it; when the source then answers a read of no
  bytes, the whole iteration ends without that broadcast.
\<close>

theorem long_seek_no_consumer_wakeup:
  "reachable (seek_pending_at 2097152 sys_1TiB) \<and>
   b_seek_request (seek_pending_at 2097152 sys_1TiB) \<and>
   seek_class_of (fst (seek_classify (seek_pending_at 2097152 sys_1TiB))) = Long_seek \<and>
   fst (BufferThread_seek id id 0 (seek_pending_at 2097152 sys_1TiB)) = Continue \<and>
   \<not> b_seek_request (snd (BufferThread_seek id id 0 (seek_pending_at 2097152 sys_1TiB))) \<and>
   Cond_broadcast wakeup_read_cond \<notin>
     set (events (snd (BufferThread_seek id id 0 (seek_pending_at 2097152 sys_1TiB)))) \<and>
   BufferThread_iteration io_seek_to_end (seek_pending_at 2097152 sys_1TiB) =
     Returns (Continue,
       sys_1TiB \<lparr> i_cache_offset := 2097152, i_read_index := 2097152,
                   i_write_index := 2097152, i_stream_offset := 2097152,
                   b_buffered_eos := True,
                   events := [Cond_broadcast wakeup_write_cond, Stream_Tell,
                              Stream_Seek 2097152, Stream_Read BYTES_PER_READ] \<rparr>)"
proof -
  have long: "b_seek_request (seek_pending_at 2097152 sys_1TiB)"
    "seek_class_of (fst (seek_classify (seek_pending_at 2097152 sys_1TiB))) = Long_seek"
    by (simp_all add: seek_classify_class seek_pending_at_def sys_1TiB_def emit_def ring_consts)
  have "events (snd (BufferThread_seek id id 0 (seek_pending_at 2097152 sys_1TiB))) =
          [Cond_broadcast wakeup_write_cond, Stream_Seek 2097152]"
    by (simp add: BufferThread_seek_long long seek_commit_def Let_def emit_def)
       (simp add: seek_pending_at_def sys_1TiB_def emit_def)
  moreover have "\<not> b_seek_request (snd (BufferThread_seek id id 0 (seek_pending_at 2097152 sys_1TiB)))"
    "fst (BufferThread_seek id id 0 (seek_pending_at 2097152 sys_1TiB)) = Continue"
    by (simp_all add: BufferThread_seek_long long seek_commit_def Let_def emit_def)
  moreover have
    "BufferThread_iteration io_seek_to_end (seek_pending_at 2097152 sys_1TiB) =
       Returns (Continue,
         sys_1TiB \<lparr> i_cache_offset := 2097152, i_read_index := 2097152,
                     i_write_index := 2097152, i_stream_offset := 2097152,
                     b_buffered_eos := True,
                     events := [Cond_broadcast wakeup_write_cond, Stream_Tell,
                                Stream_Seek 2097152, Stream_Read BYTES_PER_READ] \<rparr>)"
    by (simp add: BufferThread_iteration_def io_seek_to_end_def BufferThread_tell_def
          BufferThread_eos_def BufferThread_seek_def seek_classify_def seek_commit_def
          BufferThread_read_def seek_pending_at_def sys_1TiB_def emit_def Let_def ring_consts)
  ultimately show ?thesis
    using long reachable_seek_pending_at [OF reachable_sys_1TiB] by simp
qed

subsection \<open>Classification at the boundaries of the cached range\<close>

lemma uint_window_end:
  assumes "0 \<le> c" and "uint (a :: 64 word) + c + t < 2 ^ 64" and "0 \<le> t"
  shows "uint (a + word_of_int c) = uint a + c"
    and "uint (a + word_of_int c + word_of_int t) = uint a + c + t"
proof -
  have a0: "0 \<le> uint a" by simp
  have c1: "c mod 2 ^ 64 = c" by (rule mod_pos_pos_trivial) (use assms a0 in linarith)+
  have t1: "t mod 2 ^ 64 = t" by (rule mod_pos_pos_trivial) (use assms a0 in linarith)+
  have ac: "(uint a + c) mod 2 ^ 64 = uint a + c"
    by (rule mod_pos_pos_trivial) (use assms a0 in linarith)+
  have act: "(uint a + c + t) mod 2 ^ 64 = uint a + c + t"
    by (rule mod_pos_pos_trivial) (use assms a0 in linarith)+
  show e: "uint (a + word_of_int c) = uint a + c"
    using c1 ac by (simp add: uint_word_ariths uint_word_of_int)
  show "uint (a + word_of_int c + word_of_int t) = uint a + c + t"
    using e t1 act by (simp add: uint_word_ariths uint_word_of_int)
qed

lemma seek_classify_math:
  assumes "0 \<le> i_cache_size s"
      and "uint (i_cache_offset s) + i_cache_size s + RING_SEEK_THRESHOLD < 2 ^ 64"
  shows "seek_class_of (fst (seek_classify s)) =
     (if uint (i_seek_pos s) < uint (i_cache_offset s) \<or>
         uint (i_seek_pos s) \<ge> uint (i_cache_offset s) + i_cache_size s + RING_SEEK_THRESHOLD
      then Long_seek
      else if uint (i_seek_pos s) < uint (i_cache_offset s) + i_cache_size s then Short_seek
      else Middle_seek)"
  using uint_window_end [of "i_cache_size s" "i_cache_offset s" RING_SEEK_THRESHOLD] assms
  by (simp add: seek_classify_class word_less_def word_le_def RING_SEEK_THRESHOLD_def)

text \<open>
  C5 (amended). Let the cached range \<open>[cache_offset, cache_offset + cache_size)\<close> be such
  that its end plus \<^verbatim>\<open>RING_SEEK_THRESHOLD\<close> is below \<open>2^64\<close> (the offsets are 64-bit
  and the comparisons are made on them). A seek to exactly the end of the range is
  classified middle, a seek to the end plus \<^verbatim>\<open>RING_SEEK_THRESHOLD\<close> is classified long,
  and, when the range is not empty, a seek to its last byte is classified short.
\<close>

theorem seek_class_at_window_boundaries:
  assumes "0 \<le> i_cache_size s"
      and "uint (i_cache_offset s) + i_cache_size s + RING_SEEK_THRESHOLD < 2 ^ 64"
  shows "(0 < i_cache_size s \<longrightarrow>
            seek_class_of (fst (seek_classify
              (s\<lparr> i_seek_pos := word_of_int (uint (i_cache_offset s) + i_cache_size s - 1) \<rparr>)))
            = Short_seek) \<and>
         seek_class_of (fst (seek_classify
           (s\<lparr> i_seek_pos := word_of_int (uint (i_cache_offset s) + i_cache_size s) \<rparr>)))
           = Middle_seek \<and>
         seek_class_of (fst (seek_classify
           (s\<lparr> i_seek_pos := word_of_int (uint (i_cache_offset s) + i_cache_size s
                                              + RING_SEEK_THRESHOLD) \<rparr>)))
           = Long_seek"
proof -
  have a0: "0 \<le> uint (i_cache_offset s)" by simp
  have u: "uint (word_of_int k :: 64 word) = k" if "0 \<le> k" "k < 2 ^ 64" for k
    using that by (simp add: uint_word_of_int mod_pos_pos_trivial)
  have thr: "0 < RING_SEEK_THRESHOLD" by (simp add: RING_SEEK_THRESHOLD_def)
  have 1: "uint (word_of_int (uint (i_cache_offset s) + i_cache_size s - 1) :: 64 word) =
           uint (i_cache_offset s) + i_cache_size s - 1" if "0 < i_cache_size s"
    by (rule u) (use assms a0 thr that in linarith)+
  have 2: "uint (word_of_int (uint (i_cache_offset s) + i_cache_size s) :: 64 word) =
           uint (i_cache_offset s) + i_cache_size s"
    by (rule u) (use assms a0 thr in linarith)+
  have 3: "uint (word_of_int (uint (i_cache_offset s) + i_cache_size s + RING_SEEK_THRESHOLD)
             :: 64 word) = uint (i_cache_offset s) + i_cache_size s + RING_SEEK_THRESHOLD"
    by (rule u) (use assms a0 thr in linarith)+
  show ?thesis
    using assms thr 1 2 3 by (simp add: seek_classify_math)
qed

lemma run_sys_empty_window:
  "run [Call_Control (STREAM_SET_POSITION 2097152), Producer_classify, Producer_commit True,
        Producer_read 0 zero_bytes] sys_1TiB = Some sys_empty_window"
  by (simp add: sys_1TiB_def sys_empty_window_def emit_def seek_classify_def seek_commit_def
        BufferThread_read_def Let_def ring_consts)

text \<open>The theorem at the range \<open>[0, 65536)\<close>.\<close>

theorem seek_class_at_window_boundaries_witness:
  "0 < i_cache_size sys_cached \<and>
   uint (i_cache_offset sys_cached) + i_cache_size sys_cached + RING_SEEK_THRESHOLD < 2 ^ 64 \<and>
   seek_class_of (fst (seek_classify (sys_cached\<lparr> i_seek_pos := 65535 \<rparr>))) = Short_seek \<and>
   seek_class_of (fst (seek_classify (sys_cached\<lparr> i_seek_pos := 65536 \<rparr>))) = Middle_seek \<and>
   seek_class_of (fst (seek_classify (sys_cached\<lparr> i_seek_pos := 1114112 \<rparr>))) = Long_seek"
proof -
  have h: "0 \<le> i_cache_size sys_cached" "0 < i_cache_size sys_cached"
    "uint (i_cache_offset sys_cached) + i_cache_size sys_cached + RING_SEEK_THRESHOLD < 2 ^ 64"
    "i_cache_offset sys_cached = 0" "i_cache_size sys_cached = 65536"
    by (simp_all add: sys_cached_def sys_1TiB_def ring_consts)
  show ?thesis
    using seek_class_at_window_boundaries [OF h(1) h(3)] h
    by (simp add: ring_consts)
qed

text \<open>
  C5 as stated fails on an empty range: after a long seek to 2 MiB and a read of no bytes
  the range is \<open>[2097152, 2097152)\<close>, and the seek to \<open>2097152 + 0 - 1\<close> is below the
  start of the range, which the code classifies long.
\<close>

theorem empty_window_seek_below_is_long:
  "reachable sys_empty_window \<and>
   i_cache_offset sys_empty_window = 2097152 \<and> i_cache_size sys_empty_window = 0 \<and>
   b_seek_request (seek_pending_at 2097151 sys_empty_window) \<and>
   uint (i_seek_pos (seek_pending_at 2097151 sys_empty_window)) =
     uint (i_cache_offset (seek_pending_at 2097151 sys_empty_window)) +
     i_cache_size (seek_pending_at 2097151 sys_empty_window) - 1 \<and>
   seek_class_of (fst (seek_classify (seek_pending_at 2097151 sys_empty_window))) = Long_seek"
proof -
  have "reachable sys_empty_window"
    using run_reachable [OF reachable_sys_1TiB run_sys_empty_window] .
  then show ?thesis
    by (simp add: seek_classify_class seek_pending_at_def sys_empty_window_def sys_1TiB_def
          emit_def ring_consts)
qed

subsection \<open>Writes that do not wait, and the short seek\<close>

lemma WaitBufferForWrite_loop_pass:
  "WaitBufferForWrite_pass n s = Some r \<Longrightarrow> WaitBufferForWrite_loop env n s = Some (r, s)"
  by (cases env) simp_all

lemma WaitBufferForRead_loop_pass:
  "WaitBufferForRead_pass n s = Some r \<Longrightarrow> WaitBufferForRead_loop env n s = Some (r, s)"
  by (cases env) simp_all

lemma write_commit_other_fields [simp]:
  "b_seek_request (write_commit n s) = b_seek_request s"
  "b_abort (write_commit n s) = b_abort s"
  "b_error (write_commit n s) = b_error s"
  "b_buffered_eos (write_commit n s) = b_buffered_eos s"
  "i_seek_pos (write_commit n s) = i_seek_pos s"
  "i_stream_offset (write_commit n s) = i_stream_offset s"
  "i_stream_size (write_commit n s) = i_stream_size s"
  "b_can_seek (write_commit n s) = b_can_seek s"
  "i_read_index (write_commit n s) = i_read_index s"
  "i_temp_peek_capacity (write_commit n s) = i_temp_peek_capacity s"
  "p_temp_peek (write_commit n s) = p_temp_peek s"
  "events (write_commit n s) = events s"
  "i_buffer_size (write_commit n s) = i_buffer_size s + n"
  "i_write_index (write_commit n s) = (i_write_index s + n) smod RING_TOTAL_CAPACITY"
  by (simp_all add: write_commit_def Let_def)

text \<open>
  The assertion of \<^verbatim>\<open>WriteToBuffer_l\<close> holds for every write of a positive count, which is
  how the producer calls it.
\<close>

lemma WaitBufferForWrite_loop_room:
  "WaitBufferForWrite_loop env n s = Some (r, s') \<Longrightarrow> 0 \<le> r \<Longrightarrow>
   r = n \<and> i_buffer_size s' + n < RING_TOTAL_CAPACITY"
proof (induction env arbitrary: s)
  case Nil
  then show ?case
    by (auto simp: WaitBufferForWrite_pass_def ring_consts split: option.splits if_splits)
next
  case (Cons e env)
  show ?case
  proof (cases "WaitBufferForWrite_pass n s")
    case None
    with Cons.prems Cons.IH show ?thesis by simp
  next
    case (Some a)
    with Cons.prems show ?thesis
      by (auto simp: WaitBufferForWrite_pass_def ring_consts split: if_splits)
  qed
qed

lemma WriteToBuffer_l_assert_holds:
  assumes "0 < n"
  shows "WriteToBuffer_l env buf n s \<noteq> Assert_fails"
proof (cases "WaitBufferForWrite_l env n s")
  case None
  then show ?thesis by (simp add: WriteToBuffer_l_def)
next
  case (Some a)
  obtain r s' where a: "a = (r, s')" by (cases a)
  show ?thesis
  proof (cases "r < 0")
    case True
    with Some a show ?thesis by (simp add: WriteToBuffer_l_def)
  next
    case False
    with Some a assms WaitBufferForWrite_loop_room [of env n s r s']
    have "n \<le> RING_TOTAL_CAPACITY - i_buffer_size s'"
      by (simp add: WaitBufferForWrite_l_def)
    with Some a False show ?thesis
      by (simp add: WriteToBuffer_l_def Let_def split: option.splits)
  qed
qed

lemma WriteToBuffer_l_returns:
  assumes "0 < n" and "WaitBufferForWrite_pass n s = Some n"
      and "n \<le> RING_TOTAL_CAPACITY - i_buffer_size s"
      and "0 \<le> i_write_index s" and "i_write_index s < RING_TOTAL_CAPACITY"
      and "n \<le> r_size buf"
  shows "WriteToBuffer_l env buf n s =
           Returns (n,
             (if \<not> b_seek_request s then emit (Cond_broadcast wakeup_read_cond) else id)
               (write_commit n
                  (s\<lparr> p_buffer :=
                        fst (the (write_copy buf n (p_buffer s) (i_write_index s) 0)) \<rparr>)))"
proof -
  have "0 \<le> n" using assms(1) by simp
  from write_copy_returns [OF assms(4,5) order_refl this assms(6), of "p_buffer s"]
  obtain bl where "write_copy buf n (p_buffer s) (i_write_index s) 0 = Some (bl, n)" ..
  then show ?thesis
    using assms
    by (simp add: WriteToBuffer_l_def WaitBufferForWrite_l_def WaitBufferForWrite_loop_pass
          Let_def)
qed

lemma perform_Producer_read:
  assumes "0 < n" and "n \<le> BYTES_PER_READ"
      and "i_buffer_size s + n \<le>
             RING_TOTAL_CAPACITY - RING_BUFF_RW_GUARD_GAP - RING_BUFF_SEEK_GUARD_GAP"
      and "0 \<le> i_write_index s" and "i_write_index s < RING_TOTAL_CAPACITY"
  shows "perform (Producer_read n buf) s =
           Some ((if n < BYTES_PER_READ then b_buffered_eos_update (\<lambda>_. True) else id)
             ((if \<not> b_seek_request s then emit (Cond_broadcast wakeup_read_cond) else id)
               (write_commit n
                  (emit (Stream_Read BYTES_PER_READ) s
                     \<lparr> p_buffer :=
                         fst (the (write_copy \<lparr> r_size = BYTES_PER_READ, r_bytes = buf \<rparr> n
                                     (p_buffer s) (i_write_index s) 0)) \<rparr>))))"
proof -
  let ?s0 = "emit (Stream_Read BYTES_PER_READ) s"
  let ?b = "\<lparr> r_size = BYTES_PER_READ, r_bytes = buf \<rparr>"
  have pass: "WaitBufferForWrite_pass n ?s0 = Some n"
    using assms by (simp add: WaitBufferForWrite_pass_def emit_def)
  have room: "n \<le> RING_TOTAL_CAPACITY - i_buffer_size ?s0"
    using assms by (simp add: emit_def ring_consts)
  have idx: "0 \<le> i_write_index ?s0" "i_write_index ?s0 < RING_TOTAL_CAPACITY"
    "n \<le> r_size ?b"
    using assms by (simp_all add: emit_def)
  show ?thesis
    using assms WriteToBuffer_l_returns [OF assms(1) pass room idx]
    by (simp add: BufferThread_read_def Let_def emit_def)
qed

lemma run_sys_after_long_seek:
  "run [Call_Control (STREAM_SET_POSITION 5242881), Producer_classify, Producer_commit True,
        Producer_read 32768 zero_bytes] sys_1TiB = Some sys_after_long_seek"
  by (simp add: perform_Producer_read sys_1TiB_def sys_after_long_seek_def emit_def
        seek_classify_def seek_commit_def write_commit_def Let_def ring_consts
        del: perform.simps(10))

text \<open>
  C3 (amended). Let the producer classify a pending seek as short, and let no new position
  be posted between the classification and the commit (the seek block releases the mutex
  between the two and reads \<^verbatim>\<open>i_seek_pos\<close> again when it commits; \<open>gap\<close> is what the
  other threads do meanwhile). Then the seek block sets \<^verbatim>\<open>i_read_index\<close> to
  \<open>seek_pos mod CAPACITY\<close> (the ring position of a stream offset is the offset modulo
  the capacity; \<^verbatim>\<open>i_cache_index\<close> is not consulted), sets \<^verbatim>\<open>i_buffer_size\<close> to
  \<^verbatim>\<open>(i_write_index + CAPACITY - i_read_index) % CAPACITY\<close>, which is
  \<open>(write_index - read_index) mod CAPACITY\<close> for a write index that is not negative, sets
  \<^verbatim>\<open>i_stream_offset\<close> to the position sought, and calls nothing on the source stream: the
  only event it adds is the broadcast of the consumer's condition. The write index and the
  events are those at the commit.
\<close>

theorem short_seek_resolution:
  assumes "b_seek_request s"
      and "seek_class_of (fst (seek_classify s)) = Short_seek"
      and "i_seek_pos (gap s) = i_seek_pos s"
      and "BufferThread_seek gap seek_gap i_seek_ret s = (fl, s')"
  shows "fl = Continue \<and>
         i_read_index s' = uint (i_seek_pos s) mod RING_TOTAL_CAPACITY \<and>
         i_buffer_size s' =
           (i_write_index (gap s) + RING_TOTAL_CAPACITY - i_read_index s')
             smod RING_TOTAL_CAPACITY \<and>
         (0 \<le> i_write_index (gap s) \<longrightarrow>
            i_buffer_size s' =
              (i_write_index (gap s) - i_read_index s') mod RING_TOTAL_CAPACITY) \<and>
         i_stream_offset s' = i_seek_pos s \<and>
         events s' = events (gap s) @ [Cond_broadcast wakeup_read_cond]"
proof -
  let ?r = "uint (i_seek_pos s) mod RING_TOTAL_CAPACITY"
  let ?w = "i_write_index (gap s)"
  have s': "s' = seek_commit False (gap s)" and fl: "fl = Continue"
    using assms by (simp_all add: BufferThread_seek_short)
  have cap: "uint (word_of_int RING_TOTAL_CAPACITY :: 64 word) = RING_TOTAL_CAPACITY"
    by (simp add: ring_consts)
  have r: "i_read_index s' = ?r"
    by (simp add: s' seek_commit_def Let_def emit_def uint_mod cap assms(3))
  have b: "i_buffer_size s' = (?w + RING_TOTAL_CAPACITY - i_read_index s') smod RING_TOTAL_CAPACITY"
    by (simp add: s' seek_commit_def Let_def emit_def)
  have r_range: "0 \<le> ?r" "?r < RING_TOTAL_CAPACITY"
    by (simp_all add: ring_consts)
  have m: "i_buffer_size s' = (?w - i_read_index s') mod RING_TOTAL_CAPACITY"
    if "0 \<le> ?w"
  proof -
    have "0 \<le> ?w + RING_TOTAL_CAPACITY - ?r"
      using that r_range by linarith
    then have "(?w + RING_TOTAL_CAPACITY - ?r) smod RING_TOTAL_CAPACITY =
               (?w + RING_TOTAL_CAPACITY - ?r) mod RING_TOTAL_CAPACITY"
      by (simp add: smod_int_alt_def sgn_if ring_consts)
    also have "\<dots> = (?w - ?r) mod RING_TOTAL_CAPACITY"
      by (metis add_diff_eq diff_add_eq mod_add_self2)
    finally show ?thesis using b r by simp
  qed
  have "i_stream_offset s' = i_seek_pos s"
    "events s' = events (gap s) @ [Cond_broadcast wakeup_read_cond]"
    by (simp_all add: s' seek_commit_def Let_def emit_def assms(3))
  with fl r b m show ?thesis by simp
qed

text \<open>
  The theorem at the seek to 16384 inside the cached range \<open>[0, 65536)\<close>, with no other
  thread running between the classification and the commit, and with the consumer making
  one turn of its wait there.
\<close>

theorem short_seek_resolution_witness:
  "b_seek_request (seek_pending_at 16384 sys_cached) \<and>
   seek_class_of (fst (seek_classify (seek_pending_at 16384 sys_cached))) = Short_seek \<and>
   uint (i_cache_offset (seek_pending_at 16384 sys_cached))
     \<le> uint (i_seek_pos (seek_pending_at 16384 sys_cached)) \<and>
   uint (i_seek_pos (seek_pending_at 16384 sys_cached))
     < uint (i_cache_offset (seek_pending_at 16384 sys_cached)) +
       i_cache_size (seek_pending_at 16384 sys_cached) \<and>
   fst (BufferThread_seek id id 0 (seek_pending_at 16384 sys_cached)) = Continue \<and>
   i_read_index (snd (BufferThread_seek id id 0 (seek_pending_at 16384 sys_cached))) = 16384 \<and>
   i_buffer_size (snd (BufferThread_seek id id 0 (seek_pending_at 16384 sys_cached))) = 49152 \<and>
   i_stream_offset (snd (BufferThread_seek id id 0 (seek_pending_at 16384 sys_cached))) = 16384 \<and>
   events (snd (BufferThread_seek id id 0 (seek_pending_at 16384 sys_cached))) =
     [Cond_broadcast wakeup_write_cond, Cond_broadcast wakeup_read_cond] \<and>
   i_seek_pos (WaitBufferForRead_wait (seek_pending_at 16384 sys_cached)) = 16384 \<and>
   i_read_index (snd (BufferThread_seek WaitBufferForRead_wait id 0
                        (seek_pending_at 16384 sys_cached))) = 16384 \<and>
   i_stream_offset (snd (BufferThread_seek WaitBufferForRead_wait id 0
                           (seek_pending_at 16384 sys_cached))) = 16384 \<and>
   events (snd (BufferThread_seek WaitBufferForRead_wait id 0
                  (seek_pending_at 16384 sys_cached))) =
     [Cond_broadcast wakeup_write_cond, Cond_timedwait wakeup_read_cond,
      Cond_broadcast wakeup_read_cond]"
proof -
  have h: "b_seek_request (seek_pending_at 16384 sys_cached)"
    "seek_class_of (fst (seek_classify (seek_pending_at 16384 sys_cached))) = Short_seek"
    by (simp_all add: seek_classify_class seek_pending_at_def sys_cached_def sys_1TiB_def
          emit_def ring_consts)
  have f: "i_seek_pos (seek_pending_at 16384 sys_cached) = 16384"
    "i_cache_offset (seek_pending_at 16384 sys_cached) = 0"
    "i_cache_size (seek_pending_at 16384 sys_cached) = 65536"
    "i_write_index (seek_pending_at 16384 sys_cached) = 65536"
    "events (seek_pending_at 16384 sys_cached) = [Cond_broadcast wakeup_write_cond]"
    by (simp_all add: seek_pending_at_def sys_cached_def sys_1TiB_def emit_def)
  have g: "i_seek_pos (WaitBufferForRead_wait (seek_pending_at 16384 sys_cached)) = 16384"
    "i_write_index (WaitBufferForRead_wait (seek_pending_at 16384 sys_cached)) = 65536"
    "events (WaitBufferForRead_wait (seek_pending_at 16384 sys_cached)) =
       [Cond_broadcast wakeup_write_cond, Cond_timedwait wakeup_read_cond]"
    by (simp_all add: WaitBufferForRead_wait_def seek_pending_at_def sys_cached_def
          sys_1TiB_def emit_def)
  have i: "i_seek_pos (id (seek_pending_at 16384 sys_cached)) =
           i_seek_pos (seek_pending_at 16384 sys_cached)"
    by simp
  have w: "i_seek_pos (WaitBufferForRead_wait (seek_pending_at 16384 sys_cached)) =
           i_seek_pos (seek_pending_at 16384 sys_cached)"
    by (simp add: f g)
  show ?thesis
    using
      short_seek_resolution [where gap = id and seek_gap = id and i_seek_ret = 0,
        OF h i surjective_pairing]
      short_seek_resolution [where gap = WaitBufferForRead_wait and seek_gap = id
        and i_seek_ret = 0, OF h w surjective_pairing] h f g
    by (simp add: ring_consts)
qed

text \<open>
  C3 as stated fails: after a long seek to 5242881 the cached range starts at ring position
  5242881 while \<^verbatim>\<open>i_cache_index\<close> is 0. The short seek to 5242891 sets the read index to
  5242891; \<open>(cache_index + (seek_pos - cache_offset)) mod CAPACITY\<close> is 10.

  The condition on the interval between classification and commit is needed: when the
  consumer posts the position 5000000000 there, which is far beyond the cached range and
  would be classified long, the commit of the short seek takes it: \<^verbatim>\<open>i_stream_offset\<close>
  becomes 5000000000 and the request is cleared, with no call of \<^verbatim>\<open>stream_Seek\<close>.
\<close>

theorem short_seek_ignores_cache_index:
  "reachable (seek_pending_at 5242891 sys_after_long_seek) \<and>
   b_seek_request (seek_pending_at 5242891 sys_after_long_seek) \<and>
   seek_class_of (fst (seek_classify (seek_pending_at 5242891 sys_after_long_seek))) = Short_seek \<and>
   i_read_index (snd (BufferThread_seek id id 0 (seek_pending_at 5242891 sys_after_long_seek)))
     = 5242891 \<and>
   (i_cache_index (seek_pending_at 5242891 sys_after_long_seek) +
     (uint (i_seek_pos (seek_pending_at 5242891 sys_after_long_seek)) -
      uint (i_cache_offset (seek_pending_at 5242891 sys_after_long_seek))))
     mod RING_TOTAL_CAPACITY = 10 \<and>
   seek_class_of (fst (seek_classify
     (seek_pending_at 5000000000 (seek_pending_at 5242891 sys_after_long_seek)))) = Long_seek \<and>
   run [Producer_classify, Call_Control (STREAM_SET_POSITION 5000000000), Producer_commit False]
     (seek_pending_at 5242891 sys_after_long_seek) =
     Some (snd (BufferThread_seek (seek_pending_at 5000000000) id 0
                  (seek_pending_at 5242891 sys_after_long_seek))) \<and>
   i_stream_offset (snd (BufferThread_seek (seek_pending_at 5000000000) id 0
                           (seek_pending_at 5242891 sys_after_long_seek))) = 5000000000 \<and>
   i_read_index (snd (BufferThread_seek (seek_pending_at 5000000000) id 0
                        (seek_pending_at 5242891 sys_after_long_seek))) = 8778240 \<and>
   \<not> b_seek_request (snd (BufferThread_seek (seek_pending_at 5000000000) id 0
                            (seek_pending_at 5242891 sys_after_long_seek))) \<and>
   events (snd (BufferThread_seek (seek_pending_at 5000000000) id 0
                  (seek_pending_at 5242891 sys_after_long_seek))) =
     [Cond_broadcast wakeup_write_cond, Stream_Seek 5242881, Stream_Read BYTES_PER_READ,
      Cond_broadcast wakeup_read_cond, Cond_broadcast wakeup_write_cond,
      Cond_broadcast wakeup_write_cond, Cond_broadcast wakeup_read_cond]"
proof -
  let ?w = "seek_pending_at 5242891 sys_after_long_seek"
  let ?g = "seek_pending_at 5000000000"
  have "reachable sys_after_long_seek"
    using run_reachable [OF reachable_sys_1TiB run_sys_after_long_seek] .
  then have "reachable ?w"
    by (rule reachable_seek_pending_at)
  moreover have h: "b_seek_request ?w"
    "seek_class_of (fst (seek_classify ?w)) = Short_seek"
    by (simp_all add: seek_classify_class seek_pending_at_def sys_after_long_seek_def
          sys_1TiB_def emit_def ring_consts)
  moreover have
    "i_read_index (snd (BufferThread_seek id id 0 ?w)) = 5242891"
    by (simp add: BufferThread_seek_short h seek_commit_def Let_def emit_def)
       (simp add: seek_pending_at_def sys_after_long_seek_def sys_1TiB_def emit_def ring_consts)
  moreover have
    "(i_cache_index ?w + (uint (i_seek_pos ?w) - uint (i_cache_offset ?w)))
       mod RING_TOTAL_CAPACITY = 10"
    by (simp add: seek_pending_at_def sys_after_long_seek_def sys_1TiB_def emit_def ring_consts)
  moreover have "seek_class_of (fst (seek_classify (?g ?w))) = Long_seek"
    by (simp add: seek_classify_class seek_pending_at_def sys_after_long_seek_def
          sys_1TiB_def emit_def ring_consts)
  moreover have c: "snd (seek_classify ?w) = ?w"
    using h(2) by (auto simp: seek_classify_def Let_def split: if_splits)
  have can: "b_can_seek ?w"
    by (simp add: seek_pending_at_def sys_after_long_seek_def sys_1TiB_def emit_def)
  have "run [Producer_classify, Call_Control (STREAM_SET_POSITION 5000000000),
             Producer_commit False] ?w =
          Some (snd (BufferThread_seek ?g id 0 ?w))"
    using h(1) can
    by (simp add: c BufferThread_seek_short h)
       (simp add: seek_pending_at_def emit_def)
  moreover have
    "i_stream_offset (snd (BufferThread_seek ?g id 0 ?w)) = 5000000000"
    "i_read_index (snd (BufferThread_seek ?g id 0 ?w)) = 8778240"
    "\<not> b_seek_request (snd (BufferThread_seek ?g id 0 ?w))"
    "events (snd (BufferThread_seek ?g id 0 ?w)) =
       [Cond_broadcast wakeup_write_cond, Stream_Seek 5242881, Stream_Read BYTES_PER_READ,
        Cond_broadcast wakeup_read_cond, Cond_broadcast wakeup_write_cond,
        Cond_broadcast wakeup_write_cond, Cond_broadcast wakeup_read_cond]"
    by (simp_all add: BufferThread_seek_short h seek_commit_def Let_def emit_def)
       (simp_all add: seek_pending_at_def sys_after_long_seek_def sys_1TiB_def emit_def
          ring_consts)
  ultimately show ?thesis by simp
qed

subsection \<open>A run that fills the cached range\<close>

lemma PeekFromBuffer_l_returns:
  assumes "0 < n" and "\<not> b_seek_request s" and "n \<le> i_buffer_size s"
      and "peek_copy (p_buffer s) n p (i_read_index s) 0 = Some (p', n)"
  shows "PeekFromBuffer_l env p n s = Returns (n, p', s)"
proof -
  have "WaitBufferForRead_pass n s = Some n"
    using assms by (simp add: WaitBufferForRead_pass_def)
  then have "WaitBufferForRead_l env n s = Some (n, s)"
    using assms by (simp add: WaitBufferForRead_l_def WaitBufferForRead_loop_pass)
  then show ?thesis
    using assms by (simp add: PeekFromBuffer_l_def Let_def)
qed

lemma perform_Call_Read:
  assumes "0 < sint n" and "\<not> b_seek_request s" and "sint n \<le> i_buffer_size s"
  shows "perform (Call_Read None n) s =
           Some (emit (Cond_broadcast wakeup_write_cond)
                   (s\<lparr> i_buffer_size := i_buffer_size s - sint n,
                        i_read_index := (i_read_index s + sint n) smod RING_TOTAL_CAPACITY,
                        i_stream_offset := i_stream_offset s + word_of_int (sint n) \<rparr>))"
proof -
  have "peek_copy (p_buffer s) (sint n) None (i_read_index s) 0 = Some (None, sint n)"
    using assms(1) by (intro peek_copy_null) simp
  from PeekFromBuffer_l_returns [OF assms this] assms(1) show ?thesis
    by (simp add: Read_def ReadFromBuffer_l_def)
qed

lemma kept_up_start: "kept_up 0 sys_1TiB"
  by (simp add: kept_up_def sys_1TiB_def)

lemma offset_below_size:
  assumes "k \<le> 320"
  shows "\<not> (1099511627776 :: 64 word) \<le> word_of_int (32768 * int k)"
proof -
  have "32768 * int k < 2 ^ 64" using assms by simp
  then have "uint (word_of_int (32768 * int k) :: 64 word) = 32768 * int k"
    by (simp only: uint_word_of_int) (simp add: mod_pos_pos_trivial)
  then show ?thesis
    using assms by (simp only: word_le_def) simp
qed

lemma pump_round_kept_up:
  assumes "k < 320" and "kept_up k s"
  shows "\<exists>s'. run (pump_round k) s = Some s' \<and> kept_up (Suc k) s'"
proof -
  have k: "32768 * int k < RING_TOTAL_CAPACITY" "32768 * int k + 32768 \<le> RING_TOTAL_CAPACITY"
    using assms(1) by (simp_all add: ring_consts)
  have m: "(32768 * int k) mod RING_TOTAL_CAPACITY = 32768 * int k"
    using k by (simp add: mod_pos_pos_trivial)
  have sm: "(32768 * int k + 32768) smod RING_TOTAL_CAPACITY =
            (32768 * int (Suc k)) mod RING_TOTAL_CAPACITY"
    by (simp add: smod_nonneg ring_consts add.commute)
  have w: "(word_of_int (32768 * int k) :: 64 word) + word_of_int 32768 =
           word_of_int (32768 * int (Suc k))"
    by (simp add: add.commute)
  have s32: "sint (32768 :: 32 word) = 32768" by simp
  have c: "32768 * int k + 32768 = 32768 * int (Suc k)" by simp
  note f = assms(2) [unfolded kept_up_def]
  define s1 where "s1 = emit Stream_Tell s"
  define s3 where
    "s3 = emit (Cond_broadcast wakeup_read_cond)
            (write_commit 32768
               (emit (Stream_Read BYTES_PER_READ) s1
                  \<lparr> p_buffer :=
                      fst (the (write_copy \<lparr> r_size = BYTES_PER_READ, r_bytes = zero_bytes \<rparr>
                                  32768 (p_buffer s1) (i_write_index s1) 0)) \<rparr>))"
  define s4 where
    "s4 = emit (Cond_broadcast wakeup_write_cond)
            (s3\<lparr> i_buffer_size := i_buffer_size s3 - 32768,
                  i_read_index := (i_read_index s3 + 32768) smod RING_TOTAL_CAPACITY,
                  i_stream_offset := i_stream_offset s3 + word_of_int 32768 \<rparr>)"
  have p1: "perform (Producer_tell (word_of_int (32768 * int k))) s = Some s1"
    using f offset_below_size [of k] assms(1)
    by (simp add: BufferThread_tell_def Let_def s1_def emit_def del: of_int_mult of_int_of_nat_eq)
  have p2: "perform Producer_eos s1 = Some s1"
    using f by (simp add: BufferThread_eos_def s1_def emit_def)
  have p3: "perform (Producer_read 32768 zero_bytes) s1 = Some s3"
    using f perform_Producer_read [of 32768 s1 zero_bytes]
    by (simp add: s1_def s3_def emit_def ring_consts)
  have p4: "perform (Call_Read None 32768) s3 = Some s4"
    using f perform_Call_Read [of 32768 s3] s32
    by (simp add: s1_def s3_def s4_def emit_def)
  have "run (pump_round k) s = Some s4"
    by (simp add: pump_round_def p1 p2 p3 p4 del: perform.simps of_int_mult of_int_of_nat_eq)
  moreover have "kept_up (Suc k) s4"
    unfolding kept_up_def
    using f k m sm w c
    by (simp add: s1_def s3_def s4_def emit_def write_commit_def Let_def
          del: of_int_mult of_int_of_nat_eq of_nat_Suc)
  ultimately show ?thesis by blast
qed

lemma pump_rounds_Suc: "pump_rounds (Suc k) = pump_rounds k @ pump_round k"
  by (simp add: pump_rounds_def)

lemma pump_rounds_kept_up:
  "k \<le> 320 \<Longrightarrow> \<exists>s. run (pump_rounds k) sys_1TiB = Some s \<and> kept_up k s"
proof (induction k)
  case 0
  show ?case by (simp add: pump_rounds_def kept_up_start)
next
  case (Suc k)
  then obtain s where s: "run (pump_rounds k) sys_1TiB = Some s" "kept_up k s" by auto
  from Suc.prems have "k < 320" by simp
  from pump_round_kept_up [OF this s(2)] obtain s' where
    "run (pump_round k) s = Some s'" "kept_up (Suc k) s'" by blast
  with s(1) show ?case by (simp add: pump_rounds_Suc run_append)
qed

lemma after_rounds:
  assumes "k \<le> 320"
  shows "run (pump_rounds k) sys_1TiB = Some (after_rounds k)" and "kept_up k (after_rounds k)"
    and "reachable (after_rounds k)"
proof -
  from pump_rounds_kept_up [OF assms] obtain s where
    s: "run (pump_rounds k) sys_1TiB = Some s" "kept_up k s" by blast
  then have e: "after_rounds k = s" by (simp add: after_rounds_def)
  show "run (pump_rounds k) sys_1TiB = Some (after_rounds k)" "kept_up k (after_rounds k)"
    using s e by simp_all
  then show "reachable (after_rounds k)"
    using run_reachable [OF reachable_sys_1TiB] by blast
qed


lemma pump_round_320:
  assumes "kept_up 320 s"
  shows "\<exists>s'. run (pump_round 320) s = Some s' \<and> i_cache_size s' = 11535360 \<and>
              i_cache_index s' = - 1016832 \<and> i_buffer_size s' = 0"
proof -
  have s32: "sint (32768 :: 32 word) = 32768" by simp
  note f = assms [unfolded kept_up_def]
  define s1 where "s1 = emit Stream_Tell s"
  define s3 where
    "s3 = emit (Cond_broadcast wakeup_read_cond)
            (write_commit 32768
               (emit (Stream_Read BYTES_PER_READ) s1
                  \<lparr> p_buffer :=
                      fst (the (write_copy \<lparr> r_size = BYTES_PER_READ, r_bytes = zero_bytes \<rparr>
                                  32768 (p_buffer s1) (i_write_index s1) 0)) \<rparr>))"
  define s4 where
    "s4 = emit (Cond_broadcast wakeup_write_cond)
            (s3\<lparr> i_buffer_size := i_buffer_size s3 - 32768,
                  i_read_index := (i_read_index s3 + 32768) smod RING_TOTAL_CAPACITY,
                  i_stream_offset := i_stream_offset s3 + word_of_int 32768 \<rparr>)"
  have p1: "perform (Producer_tell 10485760) s = Some s1"
    using f by (simp add: BufferThread_tell_def Let_def s1_def emit_def)
  have p2: "perform Producer_eos s1 = Some s1"
    using f by (simp add: BufferThread_eos_def s1_def emit_def)
  have p3: "perform (Producer_read 32768 zero_bytes) s1 = Some s3"
    using f perform_Producer_read [of 32768 s1 zero_bytes]
    by (simp add: s1_def s3_def emit_def ring_consts)
  have p4: "perform (Call_Read None 32768) s3 = Some s4"
    using f perform_Call_Read [of 32768 s3] s32
    by (simp add: s1_def s3_def s4_def emit_def)
  have "run (pump_round 320) s = Some s4"
    by (simp add: pump_round_def p1 p2 p3 p4 del: perform.simps)
  moreover have "i_cache_size s4 = 11535360 \<and> i_cache_index s4 = - 1016832 \<and> i_buffer_size s4 = 0"
    using f
    by (simp add: s1_def s3_def s4_def emit_def write_commit_def Let_def ring_consts
          smod_int_alt_def)
  ultimately show ?thesis by blast
qed

subsection \<open>The size of the cached range\<close>

text \<open>
  C1. The specification states that \<open>0 \<le> buffer_size \<le> cache_size \<le> CAPACITY\<close> holds
  in every reachable state, also right after the slide of the cached range in
  \<^verbatim>\<open>WriteToBuffer_l\<close>. The code does not keep it: \<^verbatim>\<open>i_diff\<close> is
  \<^verbatim>\<open>i_cache_size - RING_TOTAL_CAPACITY - RING_BUFF_RW_GUARD_GAP - RING_BUFF_SEEK_GUARD_GAP\<close>,
  which is negative when the capacity is first exceeded, so the slide enlarges the range.
  After 321 rounds of the run above the state is reachable, \<^verbatim>\<open>i_cache_size\<close> is
  11535360 (the capacity plus both gaps) while the capacity is 10485760, and
  \<^verbatim>\<open>i_cache_index\<close> is negative.
\<close>

theorem cache_size_exceeds_capacity:
  "run (pump_rounds 321) sys_1TiB = Some (after_rounds 321) \<and>
   reachable (after_rounds 321) \<and>
   i_buffer_size (after_rounds 321) = 0 \<and>
   i_cache_size (after_rounds 321) = 11535360 \<and>
   RING_TOTAL_CAPACITY = 10485760 \<and>
   i_cache_index (after_rounds 321) = - 1016832"
proof -
  have r: "run (pump_rounds 320) sys_1TiB = Some (after_rounds 320)"
    and k: "kept_up 320 (after_rounds 320)"
    by (simp_all add: after_rounds)
  from pump_round_320 [OF k] obtain s' where
    s': "run (pump_round 320) (after_rounds 320) = Some s'" "i_cache_size s' = 11535360"
        "i_cache_index s' = - 1016832" "i_buffer_size s' = 0"
    by blast
  have "pump_rounds 321 = pump_rounds 320 @ pump_round 320"
    using pump_rounds_Suc [of 320] by simp
  then have run: "run (pump_rounds 321) sys_1TiB = Some s'"
    using r s'(1) by (simp add: run_append)
  then have e: "after_rounds 321 = s'" by (simp add: after_rounds_def)
  have "reachable s'"
    using run_reachable [OF reachable_sys_1TiB run] .
  with run e s' show ?thesis by (simp add: ring_consts)
qed

subsection \<open>Waiting for space\<close>

lemma BufferThread_seek_reachable:
  assumes "reachable s"
  shows "reachable (snd (BufferThread_seek id id r s))"
proof (cases "b_seek_request s")
  case False
  with assms show ?thesis by (simp add: BufferThread_seek_def)
next
  case True
  show ?thesis
  proof (cases "seek_class_of (fst (seek_classify s))")
    case Long_seek
    show ?thesis
    proof (cases "r < 0")
      case True
      have "perform Producer_seek_failed s =
              Some (snd (BufferThread_seek id id r s))"
        using \<open>b_seek_request s\<close> True by (simp add: BufferThread_seek_long Long_seek)
      with assms show ?thesis by (rule reachable.performed)
    next
      case False
      have "perform (Producer_commit True) s = Some (snd (BufferThread_seek id id r s))"
        using \<open>b_seek_request s\<close> False by (simp add: BufferThread_seek_long Long_seek)
      with assms show ?thesis by (rule reachable.performed)
    qed
  next
    case Short_seek
    have "perform (Producer_commit False) s = Some (snd (BufferThread_seek id id r s))"
      using True by (simp add: BufferThread_seek_short Short_seek)
    with assms show ?thesis by (rule reachable.performed)
  next
    case Middle_seek
    have "snd (seek_classify s) = s\<lparr> i_read_index := i_write_index s, i_buffer_size := 0 \<rparr>"
      using Middle_seek by (auto simp: seek_classify_def Let_def split: if_splits)
    then have "perform Producer_classify s = Some (snd (BufferThread_seek id id r s))"
      using True by (simp add: BufferThread_seek_middle Middle_seek)
    with assms show ?thesis by (rule reachable.performed)
  qed
qed

lemma WaitBufferForWrite_l_waits:
  assumes "0 < n" and "WaitBufferForWrite_pass n s = None"
  shows "WaitBufferForWrite_l [] n s = None"
    and "WaitBufferForWrite_l (e # env) n s =
           WaitBufferForWrite_l env n (e (WaitBufferForWrite_wait s))"
  using assms by (simp_all add: WaitBufferForWrite_l_def)

text \<open>
  C4 (amended). Let a write of \<open>n > 0\<close> bytes be requested while neither \<^verbatim>\<open>b_abort\<close> nor
  \<^verbatim>\<open>b_error\<close> is set (either makes \<^verbatim>\<open>WaitBufferForWrite_l\<close> return the interrupted
  value once it has to wait). While a seek is pending, the call returns \<open>n\<close> at once,
  with the state unchanged, whenever \<open>buffer_size + n < CAPACITY - RW_GAP\<close>, with a strict
  inequality; from \<open>buffer_size + n = CAPACITY - RW_GAP\<close> on it waits. When no seek is
  pending it returns at once whenever \<open>buffer_size + n \<le> CAPACITY - RW_GAP - SEEK_GAP\<close>
  and waits otherwise. A call that waits has not returned when no other thread runs,
  and otherwise continues as the same call on the state the others leave after the timed
  wait.
\<close>

theorem wait_for_write_admission:
  assumes "0 < n" and "\<not> b_abort s" and "\<not> b_error s"
  shows "(b_seek_request s \<and>
            i_buffer_size s + n < RING_TOTAL_CAPACITY - RING_BUFF_RW_GUARD_GAP \<longrightarrow>
          WaitBufferForWrite_l env n s = Some (n, s)) \<and>
         (b_seek_request s \<and>
            RING_TOTAL_CAPACITY - RING_BUFF_RW_GUARD_GAP \<le> i_buffer_size s + n \<longrightarrow>
          WaitBufferForWrite_l [] n s = None \<and>
          (\<forall>e env'. WaitBufferForWrite_l (e # env') n s =
                      WaitBufferForWrite_l env' n (e (WaitBufferForWrite_wait s)))) \<and>
         (\<not> b_seek_request s \<and>
            i_buffer_size s + n \<le>
              RING_TOTAL_CAPACITY - RING_BUFF_RW_GUARD_GAP - RING_BUFF_SEEK_GUARD_GAP \<longrightarrow>
          WaitBufferForWrite_l env n s = Some (n, s)) \<and>
         (\<not> b_seek_request s \<and>
            RING_TOTAL_CAPACITY - RING_BUFF_RW_GUARD_GAP - RING_BUFF_SEEK_GUARD_GAP
              < i_buffer_size s + n \<longrightarrow>
          WaitBufferForWrite_l [] n s = None \<and>
          (\<forall>e env'. WaitBufferForWrite_l (e # env') n s =
                      WaitBufferForWrite_l env' n (e (WaitBufferForWrite_wait s))))"
proof -
  have gap: "0 < RING_BUFF_SEEK_GUARD_GAP" by (simp add: ring_consts)
  have ready: "WaitBufferForWrite_l env n s = Some (n, s)"
    if "WaitBufferForWrite_pass n s = Some n"
    using that assms(1) by (simp add: WaitBufferForWrite_l_def WaitBufferForWrite_loop_pass)
  have 1: "WaitBufferForWrite_pass n s = Some n"
    if "b_seek_request s" "i_buffer_size s + n < RING_TOTAL_CAPACITY - RING_BUFF_RW_GUARD_GAP"
    using that assms by (simp add: WaitBufferForWrite_pass_def)
  have 2: "WaitBufferForWrite_pass n s = None"
    if "RING_TOTAL_CAPACITY - RING_BUFF_RW_GUARD_GAP \<le> i_buffer_size s + n"
    using that assms gap by (simp add: WaitBufferForWrite_pass_def)
  have 3: "WaitBufferForWrite_pass n s = Some n"
    if "i_buffer_size s + n \<le>
          RING_TOTAL_CAPACITY - RING_BUFF_RW_GUARD_GAP - RING_BUFF_SEEK_GUARD_GAP"
    using that assms by (simp add: WaitBufferForWrite_pass_def)
  have 4: "WaitBufferForWrite_pass n s = None"
    if "\<not> b_seek_request s"
       "RING_TOTAL_CAPACITY - RING_BUFF_RW_GUARD_GAP - RING_BUFF_SEEK_GUARD_GAP
          < i_buffer_size s + n"
    using that assms by (simp add: WaitBufferForWrite_pass_def)
  show ?thesis
    using ready [OF 1] ready [OF 3] WaitBufferForWrite_l_waits [OF assms(1) 2]
      WaitBufferForWrite_l_waits [OF assms(1) 4]
    by blast
qed

lemma sys_nearly_full_fields:
  "reachable sys_nearly_full" "b_seek_request sys_nearly_full"
  "\<not> b_abort sys_nearly_full" "\<not> b_error sys_nearly_full"
  "i_buffer_size sys_nearly_full = 10451968" "\<not> b_buffered_eos sys_nearly_full"
proof -
  define a where "a = seek_pending_at 33792 (after_rounds 320)"
  define c where "c = seek_commit False a"
  have k: "kept_up 320 (after_rounds 320)" and r: "reachable (after_rounds 320)"
    by (simp_all add: after_rounds)
  note f = k [unfolded kept_up_def]
  have a: "b_seek_request a" "seek_class_of (fst (seek_classify a)) = Short_seek"
    "\<not> b_abort a" "\<not> b_error a" "i_write_index a = 0" "i_seek_pos a = 33792" "b_can_seek a"
    "\<not> b_buffered_eos a"
    using f
    by (simp_all add: a_def seek_classify_class seek_pending_at_def emit_def ring_consts)
  have b: "snd (BufferThread_seek id id 0 a) = c"
    by (simp add: BufferThread_seek_short a c_def)
  have c: "\<not> b_abort c" "\<not> b_error c" "i_buffer_size c = 10451968" "b_can_seek c"
    "\<not> b_buffered_eos c"
    using a by (simp_all add: c_def seek_commit_def Let_def emit_def ring_consts smod_int_alt_def)
  have e: "sys_nearly_full = seek_pending_at 0 c"
    by (simp add: sys_nearly_full_def b [unfolded a_def])
  show "reachable sys_nearly_full"
    unfolding sys_nearly_full_def
    by (intro reachable_seek_pending_at BufferThread_seek_reachable r)
  show "b_seek_request sys_nearly_full" "\<not> b_abort sys_nearly_full"
    "\<not> b_error sys_nearly_full" "i_buffer_size sys_nearly_full = 10451968"
    "\<not> b_buffered_eos sys_nearly_full"
    using c by (simp_all add: e seek_pending_at_def emit_def)
qed

text \<open>
  The theorem at a write of 32 KiB: with a seek pending on the full ring (permitted) and
  at the boundary (waits); with no seek pending on the empty ring (permitted) and on the
  full ring (waits).
\<close>

theorem wait_for_write_admission_witness:
  "WaitBufferForWrite_l [] 32768 (seek_pending_at 0 sys_live_full) =
     Some (32768, seek_pending_at 0 sys_live_full) \<and>
   WaitBufferForWrite_l [] 32768 sys_nearly_full = None \<and>
   WaitBufferForWrite_l [] 32768 sys_1TiB = Some (32768, sys_1TiB) \<and>
   WaitBufferForWrite_l [] 32768 sys_live_full = None"
proof -
  have a: "b_seek_request (seek_pending_at 0 sys_live_full)"
    "\<not> b_abort (seek_pending_at 0 sys_live_full)" "\<not> b_error (seek_pending_at 0 sys_live_full)"
    "i_buffer_size (seek_pending_at 0 sys_live_full) + 32768
       < RING_TOTAL_CAPACITY - RING_BUFF_RW_GUARD_GAP"
    by (simp_all add: seek_pending_at_def sys_live_full_def sys_1TiB_def emit_def ring_consts)
  have b: "RING_TOTAL_CAPACITY - RING_BUFF_RW_GUARD_GAP \<le> i_buffer_size sys_nearly_full + 32768"
    by (simp add: sys_nearly_full_fields ring_consts)
  have c: "\<not> b_seek_request sys_1TiB" "\<not> b_abort sys_1TiB" "\<not> b_error sys_1TiB"
    "i_buffer_size sys_1TiB + 32768 \<le>
       RING_TOTAL_CAPACITY - RING_BUFF_RW_GUARD_GAP - RING_BUFF_SEEK_GUARD_GAP"
    by (simp_all add: sys_1TiB_def ring_consts)
  have d: "\<not> b_seek_request sys_live_full" "\<not> b_abort sys_live_full" "\<not> b_error sys_live_full"
    "RING_TOTAL_CAPACITY - RING_BUFF_RW_GUARD_GAP - RING_BUFF_SEEK_GUARD_GAP
       < i_buffer_size sys_live_full + 32768"
    by (simp_all add: sys_live_full_def sys_1TiB_def ring_consts)
  have n: "(0 :: int) < 32768" by simp
  have 1: "WaitBufferForWrite_l [] 32768 (seek_pending_at 0 sys_live_full) =
             Some (32768, seek_pending_at 0 sys_live_full)"
    using wait_for_write_admission [OF n a(2) a(3), of "[]"] a(1) a(4) by (elim conjE) simp
  have 2: "WaitBufferForWrite_l [] 32768 sys_nearly_full = None"
    using wait_for_write_admission [OF n sys_nearly_full_fields(3) sys_nearly_full_fields(4), of "[]"]
      sys_nearly_full_fields(2) b by (elim conjE) simp
  have 3: "WaitBufferForWrite_l [] 32768 sys_1TiB = Some (32768, sys_1TiB)"
    using wait_for_write_admission [OF n c(2) c(3), of "[]"] c(1) c(4) by (elim conjE) simp
  have 4: "WaitBufferForWrite_l [] 32768 sys_live_full = None"
    using wait_for_write_admission [OF n d(2) d(3), of "[]"] d(1) d(4) by (elim conjE) simp
  from 1 2 3 4 show ?thesis by simp
qed

text \<open>
  C4 as stated fails at the boundary: in a reachable state with a seek pending and
  \<open>buffer_size + n = CAPACITY - RW_GAP\<close>, the call does not return.
\<close>

theorem seek_gap_boundary_still_waits:
  "reachable sys_nearly_full \<and> b_seek_request sys_nearly_full \<and>
   \<not> b_abort sys_nearly_full \<and> \<not> b_error sys_nearly_full \<and>
   i_buffer_size sys_nearly_full + 32768 \<le> RING_TOTAL_CAPACITY - RING_BUFF_RW_GUARD_GAP \<and>
   WaitBufferForWrite_l [] 32768 sys_nearly_full = None"
proof -
  have "WaitBufferForWrite_pass 32768 sys_nearly_full = None"
    by (simp add: WaitBufferForWrite_pass_def sys_nearly_full_fields ring_consts)
  then have "WaitBufferForWrite_l [] 32768 sys_nearly_full = None"
    by (simp add: WaitBufferForWrite_l_def)
  then show ?thesis
    by (simp add: sys_nearly_full_fields ring_consts)
qed

subsection \<open>Waiting for data\<close>

lemma run_sys_source_failed:
  "run [Producer_tell 0, Producer_eos, Producer_read (- 1) zero_bytes, Producer_exit] sys_1TiB
     = Some sys_source_failed"
  by (simp add: sys_1TiB_def sys_source_failed_def emit_def BufferThread_tell_def
        BufferThread_eos_def BufferThread_read_def BufferThread_exit_def Let_def ring_consts)

lemma WaitBufferForRead_l_pass:
  "0 < n \<Longrightarrow> WaitBufferForRead_pass n s = Some r \<Longrightarrow>
   WaitBufferForRead_l env n s = Some (r, s)"
  by (simp add: WaitBufferForRead_l_def WaitBufferForRead_loop_pass)

text \<open>
  The bytes of the ring from the read index on, stored in a region.
\<close>

lemma PeekFromBuffer_l_eos:
  assumes "WaitBufferForRead_l env n s = Some (i_buffer_size s, s)"
      and "0 \<le> i_buffer_size s" and "i_buffer_size s \<le> r_size dst"
      and "0 \<le> i_read_index s" and "i_read_index s < RING_TOTAL_CAPACITY"
  shows "PeekFromBuffer_l env (Some dst) n s =
           Returns (i_buffer_size s,
                    Some (dst\<lparr> r_bytes :=
                            (\<lambda>j. if 0 \<le> j \<and> j < i_buffer_size s
                                  then ring_byte (p_buffer s)
                                         ((i_read_index s + j) mod RING_TOTAL_CAPACITY)
                                  else r_bytes dst j) \<rparr>),
                    s)"
proof (cases "i_buffer_size s = 0")
  case True
  have "(\<lambda>j. if 0 \<le> j \<and> j < i_buffer_size s
             then ring_byte (p_buffer s) ((i_read_index s + j) mod RING_TOTAL_CAPACITY)
             else r_bytes dst j) = r_bytes dst"
    using True by (auto simp: fun_eq_iff)
  then show ?thesis using True by (simp add: PeekFromBuffer_l_def assms(1))
next
  case False
  with assms(2) have pos: "0 < i_buffer_size s" by simp
  from peek_copy_from_start [OF assms(4,5,2,3), of "p_buffer s"] pos show ?thesis
    by (simp add: PeekFromBuffer_l_def assms(1) Let_def)
qed

lemma uint_of_positive:
  assumes "0 < sint (n :: 32 word)"
  shows "uint n = sint n"
proof -
  have u: "0 \<le> uint n" "uint n < 4294967296"
    using uint_lt2p [of n] by simp_all
  have s: "sint n = (uint n + 2147483648) mod 4294967296 - 2147483648"
    by (simp add: sint_uint signed_take_bit_eq_take_bit_shift take_bit_eq_mod)
  show ?thesis
  proof (cases "uint n < 2147483648")
    case True
    then have "(uint n + 2147483648) mod 4294967296 = uint n + 2147483648"
      using u by (intro mod_pos_pos_trivial) simp_all
    then show ?thesis by (simp add: s)
  next
    case False
    have "uint n + 2147483648 = 4294967296 * 1 + (uint n - 2147483648)" by simp
    moreover have "0 \<le> uint n - 2147483648" "uint n - 2147483648 < 4294967296"
      using False u by simp_all
    ultimately have "(uint n + 2147483648) mod 4294967296 = uint n - 2147483648"
      by (rule int_mod_pos_eq)
    then have "sint n < 0" using u by (simp add: s)
    with assms show ?thesis by simp
  qed
qed

text \<open>
  C9 (amended). If \<^verbatim>\<open>b_buffered_eos\<close> is set while a seek request is pending, and neither
  \<^verbatim>\<open>b_abort\<close> nor \<^verbatim>\<open>b_error\<close> is set, then \<^verbatim>\<open>WaitBufferForRead_l\<close> for a positive
  count returns the current \<^verbatim>\<open>i_buffer_size\<close> at once, whatever the other threads would
  do, instead of waiting for the seek. A read or peek in that state of at least as many
  bytes as are unread therefore returns all the unread bytes of the position before the
  seek (none, when \<^verbatim>\<open>i_buffer_size\<close> is 0): the bytes of the ring from \<^verbatim>\<open>i_read_index\<close>
  on, and the read advances \<^verbatim>\<open>i_stream_offset\<close> by their number while the request stays
  pending. The caller's buffer of the read, \<open>dst\<close>, has room for the count asked for, and
  the scratch buffer of the peek is the one \<^verbatim>\<open>Peek\<close> has just reallocated for the count.
\<close>

theorem eos_ends_wait_behind_seek:
  assumes "b_buffered_eos s" and "b_seek_request s" and "\<not> b_abort s" and "\<not> b_error s"
      and "0 < sint n"
  shows "WaitBufferForRead_l env (sint n) s = Some (i_buffer_size s, s) \<and>
         (0 \<le> i_buffer_size s \<and> i_buffer_size s \<le> sint n \<and>
          0 \<le> i_read_index s \<and> i_read_index s < RING_TOTAL_CAPACITY \<longrightarrow>
            (sint n \<le> r_size dst \<longrightarrow>
               Read env (Some dst) n s =
                 Returns (i_buffer_size s,
                       Some (dst\<lparr> r_bytes :=
                               (\<lambda>j. if 0 \<le> j \<and> j < i_buffer_size s
                                     then ring_byte (p_buffer s)
                                            ((i_read_index s + j) mod RING_TOTAL_CAPACITY)
                                     else r_bytes dst j) \<rparr>),
                       emit (Cond_broadcast wakeup_write_cond)
                         (s\<lparr> i_buffer_size := 0,
                              i_read_index :=
                                (i_read_index s + i_buffer_size s) smod RING_TOTAL_CAPACITY,
                              i_stream_offset :=
                                i_stream_offset s + word_of_int (i_buffer_size s) \<rparr>))) \<and>
            (i_temp_peek_capacity s < n \<longrightarrow>
               Peek env (Some q) n s =
                 Returns (Inr (i_buffer_size s),
                       Some \<lparr> r_size = sint n,
                              r_bytes =
                                (\<lambda>j. if 0 \<le> j \<and> j < i_buffer_size s
                                      then ring_byte (p_buffer s)
                                             ((i_read_index s + j) mod RING_TOTAL_CAPACITY)
                                      else q j) \<rparr>,
                       (emit (Realloc n) s)
                         \<lparr> p_temp_peek :=
                             Some \<lparr> r_size = sint n,
                                    r_bytes =
                                      (\<lambda>j. if 0 \<le> j \<and> j < i_buffer_size s
                                            then ring_byte (p_buffer s)
                                                   ((i_read_index s + j)
                                                      mod RING_TOTAL_CAPACITY)
                                            else q j) \<rparr> \<rparr>)))"
proof -
  have w: "WaitBufferForRead_l env (sint n) u = Some (i_buffer_size u, u)"
    if "b_buffered_eos u" "b_seek_request u" "\<not> b_abort u" "\<not> b_error u" for u
  proof -
    have "WaitBufferForRead_pass (sint n) u = Some (i_buffer_size u)"
      using that by (simp add: WaitBufferForRead_pass_def)
    with assms(5) show ?thesis by (rule WaitBufferForRead_l_pass)
  qed
  have rd: "Read env (Some dst) n s =
              Returns (i_buffer_size s,
                    Some (dst\<lparr> r_bytes :=
                            (\<lambda>j. if 0 \<le> j \<and> j < i_buffer_size s
                                  then ring_byte (p_buffer s)
                                         ((i_read_index s + j) mod RING_TOTAL_CAPACITY)
                                  else r_bytes dst j) \<rparr>),
                    emit (Cond_broadcast wakeup_write_cond)
                      (s\<lparr> i_buffer_size := 0,
                           i_read_index :=
                             (i_read_index s + i_buffer_size s) smod RING_TOTAL_CAPACITY,
                           i_stream_offset :=
                             i_stream_offset s + word_of_int (i_buffer_size s) \<rparr>))"
    if r: "0 \<le> i_buffer_size s" "i_buffer_size s \<le> sint n" "sint n \<le> r_size dst"
      "0 \<le> i_read_index s" "i_read_index s < RING_TOTAL_CAPACITY"
  proof -
    have "i_buffer_size s \<le> r_size dst" using r by simp
    from PeekFromBuffer_l_eos [OF w [OF assms(1-4)] r(1) this r(4,5)] r(1) show ?thesis
      by (simp add: Read_def ReadFromBuffer_l_def)
  qed
  have pk: "Peek env (Some q) n s =
              Returns (Inr (i_buffer_size s),
                    Some \<lparr> r_size = sint n,
                           r_bytes =
                             (\<lambda>j. if 0 \<le> j \<and> j < i_buffer_size s
                                   then ring_byte (p_buffer s)
                                          ((i_read_index s + j) mod RING_TOTAL_CAPACITY)
                                   else q j) \<rparr>,
                    (emit (Realloc n) s)
                      \<lparr> p_temp_peek :=
                          Some \<lparr> r_size = sint n,
                                 r_bytes =
                                   (\<lambda>j. if 0 \<le> j \<and> j < i_buffer_size s
                                         then ring_byte (p_buffer s)
                                                ((i_read_index s + j)
                                                   mod RING_TOTAL_CAPACITY)
                                         else q j) \<rparr> \<rparr>)"
    if r: "0 \<le> i_buffer_size s" "i_buffer_size s \<le> sint n"
      "0 \<le> i_read_index s" "i_read_index s < RING_TOTAL_CAPACITY"
      "i_temp_peek_capacity s < n"
  proof -
    define u where
      "u = (emit (Realloc n) s)\<lparr> p_temp_peek := Some \<lparr> r_size = uint n, r_bytes = q \<rparr> \<rparr>"
    have u: "b_buffered_eos u" "b_seek_request u" "\<not> b_abort u" "\<not> b_error u"
      "i_buffer_size u = i_buffer_size s" "i_read_index u = i_read_index s"
      "p_buffer u = p_buffer s" "p_temp_peek u = Some \<lparr> r_size = uint n, r_bytes = q \<rparr>"
      using assms(1-4) by (simp_all add: u_def emit_def)
    have room: "i_buffer_size u \<le> r_size \<lparr> r_size = uint n, r_bytes = q \<rparr>"
      using r(2) uint_of_positive [OF assms(5)] by (simp add: u(5))
    have "PeekFromBuffer_l env (Some \<lparr> r_size = uint n, r_bytes = q \<rparr>) (sint n) u =
            Returns (i_buffer_size u,
                     Some (\<lparr> r_size = uint n, r_bytes = q \<rparr>\<lparr> r_bytes :=
                             (\<lambda>j. if 0 \<le> j \<and> j < i_buffer_size u
                                   then ring_byte (p_buffer u)
                                          ((i_read_index u + j) mod RING_TOTAL_CAPACITY)
                                   else r_bytes \<lparr> r_size = uint n, r_bytes = q \<rparr> j) \<rparr>),
                     u)"
      using r by (intro PeekFromBuffer_l_eos w [OF u(1-4)] room) (simp_all add: u)
    then have "Peek_locked env n u =
            Returns (Inr (i_buffer_size s),
                     Some \<lparr> r_size = sint n,
                            r_bytes =
                              (\<lambda>j. if 0 \<le> j \<and> j < i_buffer_size s
                                    then ring_byte (p_buffer s)
                                           ((i_read_index s + j) mod RING_TOTAL_CAPACITY)
                                    else q j) \<rparr>,
                     u\<lparr> p_temp_peek :=
                          Some \<lparr> r_size = sint n,
                                 r_bytes =
                                   (\<lambda>j. if 0 \<le> j \<and> j < i_buffer_size s
                                         then ring_byte (p_buffer s)
                                                ((i_read_index s + j)
                                                   mod RING_TOTAL_CAPACITY)
                                         else q j) \<rparr> \<rparr>)"
      using r(1) uint_of_positive [OF assms(5)]
      by (simp add: Peek_locked_def u Let_def cong: if_cong)
    then show ?thesis
      using r(5) by (simp add: Peek_def u_def)
  qed
  show ?thesis
    using w [OF assms(1-4)] rd pk by blast
qed

text \<open>
  The theorem at a read and a peek of 40000 bytes with 32 KiB unread at offset 32768 and a
  seek to 16384 pending: both return 32768, and the read leaves the stream offset at 65536.
\<close>

theorem eos_ends_wait_behind_seek_witness:
  "b_buffered_eos (seek_pending_at 16384 sys_cached_eos) \<and>
   b_seek_request (seek_pending_at 16384 sys_cached_eos) \<and>
   i_buffer_size (seek_pending_at 16384 sys_cached_eos) = 32768 \<and>
   i_stream_offset (seek_pending_at 16384 sys_cached_eos) = 32768 \<and>
   WaitBufferForRead_l [] 40000 (seek_pending_at 16384 sys_cached_eos) =
     Some (32768, seek_pending_at 16384 sys_cached_eos) \<and>
   (\<exists>d t. Read [] (Some \<lparr> r_size = 40000, r_bytes = zero_bytes \<rparr>) 40000
             (seek_pending_at 16384 sys_cached_eos) = Returns (32768, d, t)
      \<and> i_stream_offset t = 65536 \<and> b_seek_request t \<and> i_seek_pos t = 16384) \<and>
   (\<exists>d t. Peek [] (Some zero_bytes) 40000 (seek_pending_at 16384 sys_cached_eos) =
             Returns (Inr 32768, d, t))"
proof -
  let ?w = "seek_pending_at 16384 sys_cached_eos"
  have h: "b_buffered_eos ?w" "b_seek_request ?w" "\<not> b_abort ?w" "\<not> b_error ?w"
    "i_buffer_size ?w = 32768" "i_read_index ?w = 32768" "i_stream_offset ?w = 32768"
    "i_seek_pos ?w = 16384" "i_temp_peek_capacity ?w = 0"
    by (simp_all add: seek_pending_at_def sys_cached_eos_def sys_cached_def sys_1TiB_def emit_def)
  have n: "0 < sint (40000 :: 32 word)" "sint (40000 :: 32 word) = 40000" by simp_all
  note t = eos_ends_wait_behind_seek [OF h(1-4) n(1),
      of "[]" "\<lparr> r_size = 40000, r_bytes = zero_bytes \<rparr>" zero_bytes, unfolded n(2) h(5,6,9)]
  have 1: "WaitBufferForRead_l [] 40000 ?w = Some (32768, ?w)"
    using t by blast
  have 2: "\<exists>d t. Read [] (Some \<lparr> r_size = 40000, r_bytes = zero_bytes \<rparr>) 40000 ?w =
                    Returns (32768, d, t)
             \<and> i_stream_offset t = 65536 \<and> b_seek_request t \<and> i_seek_pos t = 16384"
    using t h by (simp add: emit_def ring_consts)
  have 3: "\<exists>d t. Peek [] (Some zero_bytes) 40000 ?w = Returns (Inr 32768, d, t)"
    using t by (simp add: ring_consts)
  from 1 2 3 h show ?thesis by simp
qed

text \<open>
  C9 as stated fails when the error flag is set: after the source has failed, the producer
  has set both \<^verbatim>\<open>b_error\<close> and \<^verbatim>\<open>b_buffered_eos\<close>; with a seek pending,
  \<^verbatim>\<open>WaitBufferForRead_l\<close> returns -1, not the buffer size 0.
\<close>

theorem error_overrides_eos_behind_seek:
  "reachable (seek_pending_at 100 sys_source_failed) \<and>
   b_buffered_eos (seek_pending_at 100 sys_source_failed) \<and>
   b_seek_request (seek_pending_at 100 sys_source_failed) \<and>
   i_buffer_size (seek_pending_at 100 sys_source_failed) = 0 \<and>
   WaitBufferForRead_l [] 10 (seek_pending_at 100 sys_source_failed) =
     Some (- 1, seek_pending_at 100 sys_source_failed)"
proof -
  have "reachable (seek_pending_at 100 sys_source_failed)"
    by (intro reachable_seek_pending_at
          run_reachable [OF reachable_sys_1TiB run_sys_source_failed])
  moreover have "WaitBufferForRead_pass 10 (seek_pending_at 100 sys_source_failed) = Some (- 1)"
    by (simp add: WaitBufferForRead_pass_def seek_pending_at_def sys_source_failed_def
          sys_1TiB_def emit_def)
  then have "WaitBufferForRead_l [] 10 (seek_pending_at 100 sys_source_failed) =
               Some (- 1, seek_pending_at 100 sys_source_failed)"
    by (simp add: WaitBufferForRead_l_def)
  ultimately show ?thesis
    by (simp add: seek_pending_at_def sys_source_failed_def sys_1TiB_def emit_def)
qed

text \<open>
  The same wait with fewer bytes asked for than are unread: the count copied is
  \<^verbatim>\<open>i_buffer_size\<close>, not the count asked for, so a caller's buffer or a scratch buffer
  that holds fewer bytes than are unread is overrun. The specification promises nothing
  here; the lemmas record what the code does.
\<close>

lemma eos_behind_seek_overrun:
  assumes "b_buffered_eos s" and "b_seek_request s" and "\<not> b_abort s" and "\<not> b_error s"
      and "0 < sint n" and "0 < i_buffer_size s"
      and "0 \<le> i_read_index s" and "i_read_index s < RING_TOTAL_CAPACITY"
  shows "r_size dst < i_buffer_size s \<Longrightarrow> Read env (Some dst) n s = Out_of_bounds"
    and "i_temp_peek_capacity s < n \<Longrightarrow> sint n < i_buffer_size s \<Longrightarrow>
         Peek env (Some q) n s = Out_of_bounds"
proof -
  have w: "WaitBufferForRead_l env (sint n) u = Some (i_buffer_size u, u)"
    if "b_buffered_eos u" "b_seek_request u" "\<not> b_abort u" "\<not> b_error u" for u
  proof -
    have "WaitBufferForRead_pass (sint n) u = Some (i_buffer_size u)"
      using that by (simp add: WaitBufferForRead_pass_def)
    with assms(5) show ?thesis by (rule WaitBufferForRead_l_pass)
  qed
  have over: "PeekFromBuffer_l env (Some d) (sint n) u = Out_of_bounds"
    if "b_buffered_eos u" "b_seek_request u" "\<not> b_abort u" "\<not> b_error u"
      "0 < i_buffer_size u" "0 \<le> i_read_index u" "i_read_index u < RING_TOTAL_CAPACITY"
      "r_size d < i_buffer_size u" for u d
  proof -
    have "peek_copy (p_buffer u) (i_buffer_size u) (Some d) (i_read_index u) 0 = None"
      using that(6,7) order_refl that(5,8) by (rule peek_copy_overrun)
    then show ?thesis
      using that(5) by (simp add: PeekFromBuffer_l_def w [OF that(1-4)] Let_def)
  qed
  show "Read env (Some dst) n s = Out_of_bounds" if "r_size dst < i_buffer_size s"
    using over [OF assms(1-4,6-8) that] by (simp add: Read_def ReadFromBuffer_l_def)
  show "Peek env (Some q) n s = Out_of_bounds"
    if "i_temp_peek_capacity s < n" "sint n < i_buffer_size s"
  proof -
    define u where
      "u = (emit (Realloc n) s)\<lparr> p_temp_peek := Some \<lparr> r_size = uint n, r_bytes = q \<rparr> \<rparr>"
    have u: "b_buffered_eos u" "b_seek_request u" "\<not> b_abort u" "\<not> b_error u"
      "0 < i_buffer_size u" "0 \<le> i_read_index u" "i_read_index u < RING_TOTAL_CAPACITY"
      "r_size \<lparr> r_size = uint n, r_bytes = q \<rparr> < i_buffer_size u"
      "p_temp_peek u = Some \<lparr> r_size = uint n, r_bytes = q \<rparr>"
      using assms that(2) uint_of_positive [OF assms(5)] by (simp_all add: u_def emit_def)
    from over [OF u(1-8)] have "Peek_locked env n u = Out_of_bounds"
      by (simp add: Peek_locked_def u(9))
    then show ?thesis using that(1) by (simp add: Peek_def u_def)
  qed
qed

text \<open>
  A read of 10 bytes into a buffer of 10 bytes, with 32 KiB unread and a seek pending at
  the end of the stream.
\<close>

lemma eos_behind_seek_overrun_example:
  "Read [] (Some \<lparr> r_size = 10, r_bytes = zero_bytes \<rparr>) 10
     (seek_pending_at 16384 sys_cached_eos) = Out_of_bounds \<and>
   Peek [] (Some zero_bytes) 10 (seek_pending_at 16384 sys_cached_eos) = Out_of_bounds"
proof -
  let ?w = "seek_pending_at 16384 sys_cached_eos"
  have h: "b_buffered_eos ?w" "b_seek_request ?w" "\<not> b_abort ?w" "\<not> b_error ?w"
    "0 < sint (10 :: 32 word)" "0 < i_buffer_size ?w" "0 \<le> i_read_index ?w"
    "i_read_index ?w < RING_TOTAL_CAPACITY"
    by (simp_all add: seek_pending_at_def sys_cached_eos_def sys_cached_def sys_1TiB_def
          emit_def ring_consts)
  have f: "i_buffer_size ?w = 32768" "i_temp_peek_capacity ?w = 0"
    by (simp_all add: seek_pending_at_def sys_cached_eos_def sys_cached_def sys_1TiB_def emit_def)
  show ?thesis
    using eos_behind_seek_overrun [OF h] by (simp add: f)
qed

subsection \<open>What an action leaves unchanged\<close>

lemma WaitBufferForRead_l_nil:
  "WaitBufferForRead_l [] n s = Some (r, s') \<Longrightarrow> s' = s"
  by (auto simp: WaitBufferForRead_l_def split: if_splits option.splits)

lemma WaitBufferForWrite_l_nil:
  "WaitBufferForWrite_l [] n s = Some (r, s') \<Longrightarrow> s' = s"
  by (auto simp: WaitBufferForWrite_l_def split: if_splits option.splits)

lemma PeekFromBuffer_l_nil:
  "PeekFromBuffer_l [] p n s = Returns (r, d, s') \<Longrightarrow> s' = s"
  by (auto simp: PeekFromBuffer_l_def Let_def dest: WaitBufferForRead_l_nil
      split: if_splits option.splits prod.splits)

lemma ReadFromBuffer_l_nil:
  assumes "ReadFromBuffer_l [] p n s = Returns (r, d, s')"
  shows "(r < 0 \<and> s' = s) \<or>
         (0 \<le> r \<and>
          s' = emit (Cond_broadcast wakeup_write_cond)
                 (s\<lparr> i_buffer_size := i_buffer_size s - r,
                      i_read_index := (i_read_index s + r) smod RING_TOTAL_CAPACITY,
                      i_stream_offset := i_stream_offset s + word_of_int r \<rparr>))"
  using assms
  by (auto simp: ReadFromBuffer_l_def dest: PeekFromBuffer_l_nil
      split: if_splits outcome.splits prod.splits)

lemma Peek_locked_nil:
  assumes "Peek_locked [] n s = Returns (res, v, s')"
  shows "\<exists>pt. s' = s\<lparr> p_temp_peek := pt \<rparr>"
  using assms
  by (auto simp: Peek_locked_def Let_def dest: PeekFromBuffer_l_nil
      split: if_splits outcome.splits prod.splits)

lemma Peek_nil:
  assumes "Peek [] rr n s = Returns (res, v, s')"
  shows "\<exists>pt ev. s' = s\<lparr> p_temp_peek := pt, events := ev \<rparr>"
proof (cases "i_temp_peek_capacity s < n")
  case False
  with assms have "Peek_locked [] n s = Returns (res, v, s')" by (simp add: Peek_def)
  from Peek_locked_nil [OF this] obtain pt where "s' = s\<lparr> p_temp_peek := pt \<rparr>" ..
  then have "s' = s\<lparr> p_temp_peek := pt, events := events s \<rparr>" by simp
  then show ?thesis by blast
next
  case True
  show ?thesis
  proof (cases rr)
    case None
    with True assms have "s' = s\<lparr> p_temp_peek := p_temp_peek s, events := events s @ [Realloc n] \<rparr>"
      by (simp add: Peek_def emit_def)
    then show ?thesis by blast
  next
    case (Some q)
    let ?q = "Some \<lparr> r_size = uint n, r_bytes = q \<rparr>"
    from Some True assms
    have "Peek_locked [] n ((emit (Realloc n) s)\<lparr> p_temp_peek := ?q \<rparr>) = Returns (res, v, s')"
      by (simp add: Peek_def)
    from Peek_locked_nil [OF this] obtain pt where
      "s' = (emit (Realloc n) s)\<lparr> p_temp_peek := ?q \<rparr>\<lparr> p_temp_peek := pt \<rparr>" ..
    then have "s' = s\<lparr> p_temp_peek := pt, events := events s @ [Realloc n] \<rparr>"
      by (simp add: emit_def)
    then show ?thesis by blast
  qed
qed

lemma WriteToBuffer_l_nil:
  assumes "WriteToBuffer_l [] buf n s = Returns (r, s')"
  shows "(r < 0 \<and> s' = s) \<or>
         (\<exists>bl k. s' = write_commit k (s\<lparr> p_buffer := bl \<rparr>) \<or>
                 s' = emit (Cond_broadcast wakeup_read_cond) (write_commit k (s\<lparr> p_buffer := bl \<rparr>)))"
proof -
  from assms obtain i_buffer where
    w: "WaitBufferForWrite_l [] n s = Some (i_buffer, s)"
    by (auto simp: WriteToBuffer_l_def dest: WaitBufferForWrite_l_nil
        split: option.splits prod.splits)
  show ?thesis
  proof (cases "i_buffer < 0")
    case True
    with assms w show ?thesis by (simp add: WriteToBuffer_l_def)
  next
    case False
    with assms w show ?thesis
      by (auto simp: WriteToBuffer_l_def Let_def split: if_splits prod.splits option.splits)
  qed
qed

lemma BufferThread_read_nil:
  assumes "BufferThread_read [] i_read_ret buf s = Returns (f, s')"
  shows "(b_error s \<longrightarrow> b_error s') \<and> b_abort s' = b_abort s \<and>
         i_temp_peek_capacity s' = i_temp_peek_capacity s \<and>
         b_seek_request s' = b_seek_request s \<and> i_seek_pos s' = i_seek_pos s \<and>
         i_stream_offset s' = i_stream_offset s \<and> b_can_seek s' = b_can_seek s"
proof (cases "i_read_ret < 0")
  case True
  with assms show ?thesis by (auto simp: BufferThread_read_def Let_def emit_def)
next
  case False
  show ?thesis
  proof (cases "i_read_ret > 0")
    case False
    with \<open>\<not> i_read_ret < 0\<close> assms show ?thesis
      by (auto simp: BufferThread_read_def Let_def emit_def split: if_splits)
  next
    case True
    let ?s0 = "emit (Stream_Read BYTES_PER_READ) s"
    from True \<open>\<not> i_read_ret < 0\<close> assms obtain r s1 where
      w: "WriteToBuffer_l [] \<lparr> r_size = BYTES_PER_READ, r_bytes = buf \<rparr> i_read_ret ?s0 =
            Returns (r, s1)"
      and s': "s' = (if r < 0 then b_error_update (\<lambda>_. True) else id)
                      ((if i_read_ret < BYTES_PER_READ then b_buffered_eos_update (\<lambda>_. True)
                        else id) s1)"
      by (auto simp: BufferThread_read_def Let_def split: outcome.splits if_splits)
    from WriteToBuffer_l_nil [OF w] show ?thesis
      by (auto simp: s' emit_def)
  qed
qed

lemma perform_frame:
  assumes "perform a s = Some s'"
  shows "(b_error s \<longrightarrow> b_error s') \<and> i_temp_peek_capacity s' = i_temp_peek_capacity s \<and>
         b_can_seek s' = b_can_seek s"
proof (cases a)
  case (Call_Read p n)
  with assms obtain r d where "Read [] p n s = Returns (r, d, s')"
    by (auto split: outcome.splits)
  from ReadFromBuffer_l_nil [OF this [unfolded Read_def]] show ?thesis
    by (auto simp: emit_def)
next
  case (Call_Peek rr n)
  with assms obtain res v where "Peek [] rr n s = Returns (res, v, s')"
    by (auto split: outcome.splits)
  from Peek_nil [OF this] show ?thesis by auto
next
  case (Call_Control q)
  with assms show ?thesis by (cases q) (auto simp: emit_def split: if_splits)
next
  case Call_Close
  with assms show ?thesis by (auto simp: Close_def emit_def split: if_splits)
next
  case (Producer_tell x)
  with assms show ?thesis
    by (auto simp: BufferThread_tell_def Let_def emit_def split: if_splits)
next
  case Producer_eos
  with assms show ?thesis
    by (auto simp: BufferThread_eos_def split: if_splits outcome.splits)
next
  case Producer_classify
  with assms show ?thesis
    by (auto simp: seek_classify_def Let_def split: if_splits)
next
  case (Producer_commit b)
  with assms show ?thesis
    by (auto simp: seek_commit_def Let_def emit_def split: if_splits)
next
  case Producer_seek_failed
  with assms show ?thesis by (auto simp: emit_def split: if_splits)
next
  case (Producer_read r buf)
  with assms obtain f where "BufferThread_read [] r buf s = Returns (f, s')"
    by (auto split: if_splits outcome.splits)
  from BufferThread_read_nil [OF this] show ?thesis by simp
next
  case Producer_exit
  with assms show ?thesis by (auto simp: BufferThread_exit_def emit_def split: if_splits)
qed

lemma run_frame:
  "run as s = Some s' \<Longrightarrow>
   (b_error s \<longrightarrow> b_error s') \<and> i_temp_peek_capacity s' = i_temp_peek_capacity s \<and>
   b_can_seek s' = b_can_seek s"
proof (induction as arbitrary: s)
  case Nil
  then show ?case by simp
next
  case (Cons a as)
  then obtain s1 where "perform a s = Some s1" "run as s1 = Some s'"
    by (auto split: option.splits)
  with perform_frame [of a s s1] Cons.IH [of s1] show ?case by simp
qed


subsection \<open>The scratch buffer of Peek\<close>

text \<open>
  C10. In every reachable state \<^verbatim>\<open>i_temp_peek_capacity\<close> is 0: \<^verbatim>\<open>sys_Alloc\<close> clears it
  and no action assigns it, \<^verbatim>\<open>Peek\<close> included. So every call of \<^verbatim>\<open>Peek\<close> for a count
  other than 0 takes the branch that grows the scratch buffer: it calls \<^verbatim>\<open>realloc\<close>,
  fails with \<^verbatim>\<open>VLC_ENOMEM\<close> when that returns null, and otherwise replaces the pointer
  before it goes on.
\<close>

theorem scratch_capacity_stays_zero:
  assumes "reachable s"
  shows "i_temp_peek_capacity s = 0 \<and>
         (\<forall>i_peek env q. i_peek \<noteq> 0 \<longrightarrow>
            Peek env None i_peek s = Returns (Inl VLC_ENOMEM, None, emit (Realloc i_peek) s) \<and>
            Peek env (Some q) i_peek s =
              Peek_locked env i_peek
                ((emit (Realloc i_peek) s)
                   \<lparr> p_temp_peek := Some \<lparr> r_size = uint i_peek, r_bytes = q \<rparr> \<rparr>))"
proof -
  from assms have z: "i_temp_peek_capacity s = 0"
  proof (induction rule: reachable.induct)
    case (opened io s)
    then show ?case
      by (auto simp: Open_def sys_Alloc_def Let_def split: if_splits option.splits)
  next
    case (performed s a s')
    with perform_frame [of a s s'] show ?case by simp
  qed
  have "i_temp_peek_capacity s < i_peek" if "i_peek \<noteq> 0" for i_peek
    using that z by (simp add: word_greater_zero_iff)
  then show ?thesis using z by (simp add: Peek_def)
qed

text \<open>
  The theorem at the state after one write and one successful peek of 16 bytes: the
  scratch buffer is allocated, the recorded capacity is still 0, and the next peek of 16
  bytes calls \<^verbatim>\<open>realloc\<close> again.
\<close>

theorem scratch_capacity_stays_zero_witness:
  "\<exists>t. run [Producer_read 32768 zero_bytes, Call_Peek (Some zero_bytes) 16] sys_1TiB = Some t \<and>
       reachable t \<and> p_temp_peek t \<noteq> None \<and> i_temp_peek_capacity t = 0 \<and>
       Peek [] None 16 t = Returns (Inl VLC_ENOMEM, None, emit (Realloc 16) t)"
proof -
  define s3 where
    "s3 = emit (Cond_broadcast wakeup_read_cond)
            (write_commit 32768
               (emit (Stream_Read BYTES_PER_READ) sys_1TiB
                  \<lparr> p_buffer :=
                      fst (the (write_copy \<lparr> r_size = BYTES_PER_READ, r_bytes = zero_bytes \<rparr>
                                  32768 zero_blocks 0 0)) \<rparr>))"
  define q where "q = \<lparr> r_size = 16, r_bytes = zero_bytes \<rparr>"
  define s4 where "s4 = (emit (Realloc 16) s3)\<lparr> p_temp_peek := Some q \<rparr>"
  define q' where
    "q' = q\<lparr> r_bytes :=
              (\<lambda>j. if 0 \<le> j \<and> j < 16
                    then ring_byte (p_buffer s4) ((0 + j) mod RING_TOTAL_CAPACITY)
                    else r_bytes q j) \<rparr>"
  define t where "t = s4\<lparr> p_temp_peek := Some q' \<rparr>"
  have p3: "perform (Producer_read 32768 zero_bytes) sys_1TiB = Some s3"
    using perform_Producer_read [of 32768 sys_1TiB zero_bytes]
    by (simp add: s3_def sys_1TiB_def emit_def ring_consts)
  have f4: "\<not> b_seek_request s4" "i_buffer_size s4 = 32768" "i_read_index s4 = 0"
    "p_temp_peek s4 = Some q"
    by (simp_all add: s4_def s3_def sys_1TiB_def emit_def)
  have s16: "sint (16 :: 32 word) = 16" "uint (16 :: 32 word) = 16" by simp_all
  have "peek_copy (p_buffer s4) 16 (Some q) 0 0 = Some (Some q', 16)"
    unfolding q'_def by (rule peek_copy_from_start) (simp_all add: q_def ring_consts)
  then have "PeekFromBuffer_l [] (Some q) 16 s4 = Returns (16, Some q', s4)"
    using f4 by (intro PeekFromBuffer_l_returns) simp_all
  then have "Peek_locked [] 16 s4 = Returns (Inr 16, p_temp_peek t, t)"
    by (simp add: Peek_locked_def f4 s16 t_def Let_def)
  moreover have "i_temp_peek_capacity s3 < 16"
    by (simp add: s3_def sys_1TiB_def emit_def)
  ultimately have p4: "perform (Call_Peek (Some zero_bytes) 16) s3 = Some t"
    by (simp add: Peek_def s4_def q_def s16)
  have run: "run [Producer_read 32768 zero_bytes, Call_Peek (Some zero_bytes) 16] sys_1TiB = Some t"
    by (simp add: p3 p4 del: perform.simps)
  then have r: "reachable t"
    by (rule run_reachable [OF reachable_sys_1TiB])
  have "p_temp_peek t \<noteq> None"
    by (simp add: t_def)
  moreover have n: "(16 :: 32 word) \<noteq> 0" by simp
  ultimately show ?thesis
    using scratch_capacity_stays_zero [OF r] run r n by blast
qed

subsection \<open>Failure of the source\<close>

lemma run_keeps_error: "run as s = Some t \<Longrightarrow> b_error s \<Longrightarrow> b_error t"
  using run_frame [of as s t] by simp

text \<open>
  C7. Let an iteration of the producer reach its read step (the loop condition holds and
  neither the end-of-stream wait nor the seek block leaves the loop) and let the source's
  read return a negative value. Then \<^verbatim>\<open>BufferThread\<close> returns, whatever the source would
  answer to further iterations: it has set \<^verbatim>\<open>b_error\<close> and left the loop. In every state
  reached afterwards by any actions the flag is still set, and a \<^verbatim>\<open>Read\<close> or a \<^verbatim>\<open>Peek\<close>
  (once its scratch buffer is allocated) that has to wait, that is, one for a positive
  count with a seek pending or fewer unread bytes than asked for, returns -1 at once.
\<close>

theorem source_read_failure_is_terminal:
  assumes "\<not> b_abort s" and "\<not> b_error s"
      and "BufferThread_eos (io_eos_env io) (BufferThread_tell (io_tell io) s) = Returns (Continue, sa)"
      and "BufferThread_seek (io_gap io) (io_seek_gap io) (io_seek_ret io) sa = (Continue, sb)"
      and "io_read_ret io < 0"
      and "run as (BufferThread_exit ((emit (Stream_Read BYTES_PER_READ) sb)\<lparr> b_error := True \<rparr>))
             = Some t"
      and "0 < sint n" and "b_seek_request t \<or> sint n > i_buffer_size t"
  shows "BufferThread (io # ios) s =
           Returns (BufferThread_exit ((emit (Stream_Read BYTES_PER_READ) sb)\<lparr> b_error := True \<rparr>)) \<and>
         b_error t \<and>
         WaitBufferForRead_l env (sint n) t = Some (- 1, t) \<and>
         Read env p n t = Returns (- 1, p, t) \<and>
         (\<exists>t'. Peek env (Some q) n t = Returns (Inr (- 1), None, t'))"
proof -
  let ?x = "BufferThread_exit ((emit (Stream_Read BYTES_PER_READ) sb)\<lparr> b_error := True \<rparr>)"
  have "BufferThread_read (io_write_env io) (io_read_ret io) (io_buf io) sb =
          Returns (Break, (emit (Stream_Read BYTES_PER_READ) sb)\<lparr> b_error := True \<rparr>)"
    using assms(5) by (simp add: BufferThread_read_def Let_def)
  then have "BufferThread_iteration io s =
               Returns (Break, (emit (Stream_Read BYTES_PER_READ) sb)\<lparr> b_error := True \<rparr>)"
    using assms(3,4) by (simp add: BufferThread_iteration_def)
  then have loop: "BufferThread (io # ios) s = Returns ?x"
    using assms(1,2) by simp
  have "b_error ?x" by (simp add: BufferThread_exit_def emit_def)
  with assms(6) have e: "b_error t" by (rule run_keeps_error)
  have wait: "WaitBufferForRead_l env (sint n) u = Some (- 1, u)"
    if "b_error u" "b_seek_request u \<or> sint n > i_buffer_size u" for u
  proof -
    have "WaitBufferForRead_pass (sint n) u = Some (- 1)"
      using that by (auto simp: WaitBufferForRead_pass_def)
    with assms(7) show ?thesis by (rule WaitBufferForRead_l_pass)
  qed
  have read: "Read env p n t = Returns (- 1, p, t)"
    using wait [OF e assms(8)] by (simp add: Read_def ReadFromBuffer_l_def PeekFromBuffer_l_def)
  have peek: "\<exists>t'. Peek_locked env n u = Returns (Inr (- 1), None, t')"
    if "b_error u" "b_seek_request u \<or> sint n > i_buffer_size u" for u
    using wait [OF that] by (simp add: Peek_locked_def PeekFromBuffer_l_def)
  have "\<exists>t'. Peek env (Some q) n t = Returns (Inr (- 1), None, t')"
    using peek [of t]
      peek [of "(emit (Realloc n) t)\<lparr> p_temp_peek := Some \<lparr> r_size = uint n, r_bytes = q \<rparr> \<rparr>"]
      e assms(8)
    by (simp add: Peek_def emit_def)
  with loop e wait [OF e assms(8)] read show ?thesis by simp
qed

text \<open>
  The theorem at a source that fails its first read, followed by a seek request and a
  read and a peek of 10 bytes.
\<close>

theorem source_read_failure_is_terminal_witness:
  "BufferThread [io_source_fails] sys_1TiB = Returns sys_source_failed \<and>
   b_error (seek_pending_at 100 sys_source_failed) \<and>
   Read [] (Some \<lparr> r_size = 10, r_bytes = zero_bytes \<rparr>) 10
     (seek_pending_at 100 sys_source_failed) =
     Returns (- 1, Some \<lparr> r_size = 10, r_bytes = zero_bytes \<rparr>,
              seek_pending_at 100 sys_source_failed) \<and>
   (\<exists>t'. Peek [] (Some zero_bytes) 10 (seek_pending_at 100 sys_source_failed) =
            Returns (Inr (- 1), None, t'))"
proof -
  let ?sa = "emit Stream_Tell sys_1TiB"
  have a: "\<not> b_abort sys_1TiB" "\<not> b_error sys_1TiB" by (simp_all add: sys_1TiB_def)
  have b: "BufferThread_eos (io_eos_env io_source_fails)
             (BufferThread_tell (io_tell io_source_fails) sys_1TiB) = Returns (Continue, ?sa)"
    by (simp add: io_source_fails_def BufferThread_tell_def BufferThread_eos_def Let_def
          sys_1TiB_def emit_def)
  have c: "BufferThread_seek (io_gap io_source_fails) (io_seek_gap io_source_fails)
             (io_seek_ret io_source_fails) ?sa = (Continue, ?sa)"
    by (simp add: BufferThread_seek_def sys_1TiB_def emit_def)
  have d: "io_read_ret io_source_fails < 0" by (simp add: io_source_fails_def)
  have x: "BufferThread_exit ((emit (Stream_Read BYTES_PER_READ) ?sa)\<lparr> b_error := True \<rparr>)
             = sys_source_failed"
    by (simp add: BufferThread_exit_def sys_source_failed_def sys_1TiB_def emit_def)
  have e: "run [Call_Control (STREAM_SET_POSITION 100)]
             (BufferThread_exit ((emit (Stream_Read BYTES_PER_READ) ?sa)\<lparr> b_error := True \<rparr>))
           = Some (seek_pending_at 100 sys_source_failed)"
    by (simp add: x seek_pending_at_def)
  have n: "0 < sint (10 :: 32 word)" by simp
  have w: "b_seek_request (seek_pending_at 100 sys_source_failed) \<or>
           sint (10 :: 32 word) > i_buffer_size (seek_pending_at 100 sys_source_failed)"
    by (simp add: seek_pending_at_def sys_source_failed_def sys_1TiB_def emit_def)
  show ?thesis
    using source_read_failure_is_terminal [OF a b c d e n w,
        of "[]" "[]" "Some \<lparr> r_size = 10, r_bytes = zero_bytes \<rparr>" zero_bytes]
    by (simp add: x)
qed

subsection \<open>The position reported to the consumer\<close>

lemma perform_keeps_request:
  assumes "perform a s = Some s'" and "\<not> posts_seek a" and "\<not> completes_seek a"
  shows "b_seek_request s' = b_seek_request s \<and> i_seek_pos s' = i_seek_pos s"
proof (cases a)
  case (Call_Read p n)
  with assms obtain r d where "Read [] p n s = Returns (r, d, s')"
    by (auto split: outcome.splits)
  from ReadFromBuffer_l_nil [OF this [unfolded Read_def]] show ?thesis
    by (auto simp: emit_def)
next
  case (Call_Peek rr n)
  with assms obtain res v where "Peek [] rr n s = Returns (res, v, s')"
    by (auto split: outcome.splits)
  from Peek_nil [OF this] show ?thesis by auto
next
  case (Call_Control q)
  with assms show ?thesis by (cases q) (auto simp: emit_def split: if_splits)
next
  case Call_Close
  with assms show ?thesis by (auto simp: Close_def emit_def split: if_splits)
next
  case (Producer_tell x)
  with assms show ?thesis
    by (auto simp: BufferThread_tell_def Let_def emit_def split: if_splits)
next
  case Producer_eos
  with assms show ?thesis
    by (auto simp: BufferThread_eos_def split: if_splits outcome.splits)
next
  case Producer_classify
  with assms show ?thesis
    by (auto simp: seek_classify_def Let_def split: if_splits)
next
  case (Producer_commit b)
  with assms show ?thesis by simp
next
  case Producer_seek_failed
  with assms show ?thesis by (auto simp: emit_def split: if_splits)
next
  case (Producer_read r buf)
  with assms obtain f where "BufferThread_read [] r buf s = Returns (f, s')"
    by (auto split: if_splits outcome.splits)
  from BufferThread_read_nil [OF this] show ?thesis by simp
next
  case Producer_exit
  with assms show ?thesis by (auto simp: BufferThread_exit_def emit_def split: if_splits)
qed

lemma perform_advances_offset:
  assumes "perform a s = Some s'" and "\<not> posts_seek a" and "\<not> b_seek_request s"
  shows "\<not> b_seek_request s' \<and>
         i_stream_offset s' = i_stream_offset s + word_of_int (consumed a s)"
proof (cases a)
  case (Call_Read p n)
  with assms obtain r d where r: "Read [] p n s = Returns (r, d, s')"
    by (auto split: outcome.splits)
  from ReadFromBuffer_l_nil [OF this [unfolded Read_def]] r assms(3) Call_Read show ?thesis
    by (auto simp: emit_def)
next
  case (Call_Peek rr n)
  with assms obtain res v where "Peek [] rr n s = Returns (res, v, s')"
    by (auto split: outcome.splits)
  from Peek_nil [OF this] assms(3) Call_Peek show ?thesis by auto
next
  case (Call_Control q)
  with assms show ?thesis by (cases q) (auto simp: emit_def split: if_splits)
next
  case Call_Close
  with assms show ?thesis by (auto simp: Close_def emit_def split: if_splits)
next
  case (Producer_tell x)
  with assms show ?thesis
    by (auto simp: BufferThread_tell_def Let_def emit_def split: if_splits)
next
  case Producer_eos
  with assms show ?thesis
    by (auto simp: BufferThread_eos_def split: if_splits outcome.splits)
next
  case Producer_classify
  with assms show ?thesis by simp
next
  case (Producer_commit b)
  with assms show ?thesis by simp
next
  case Producer_seek_failed
  with assms show ?thesis by simp
next
  case (Producer_read r buf)
  with assms obtain f where "BufferThread_read [] r buf s = Returns (f, s')"
    by (auto split: if_splits outcome.splits)
  from BufferThread_read_nil [OF this] assms(3) Producer_read show ?thesis by simp
next
  case Producer_exit
  with assms show ?thesis by (auto simp: BufferThread_exit_def emit_def split: if_splits)
qed

lemma run_keeps_request:
  "run as s = Some s' \<Longrightarrow> \<forall>a \<in> set as. \<not> posts_seek a \<and> \<not> completes_seek a \<Longrightarrow>
   b_seek_request s' = b_seek_request s \<and> i_seek_pos s' = i_seek_pos s"
proof (induction as arbitrary: s)
  case Nil
  then show ?case by simp
next
  case (Cons a as)
  then obtain s1 where s1: "perform a s = Some s1" "run as s1 = Some s'"
    by (auto split: option.splits)
  from perform_keeps_request [OF s1(1)] Cons.prems(2) Cons.IH [OF s1(2)]
  show ?case by simp
qed

lemma run_advances_offset:
  "run as s = Some s' \<Longrightarrow> \<forall>a \<in> set as. \<not> posts_seek a \<Longrightarrow> \<not> b_seek_request s \<Longrightarrow>
   \<not> b_seek_request s' \<and>
   i_stream_offset s' = i_stream_offset s + word_of_int (consumed_run as s)"
proof (induction as arbitrary: s)
  case Nil
  then show ?case by simp
next
  case (Cons a as)
  then obtain s1 where s1: "perform a s = Some s1" "run as s1 = Some s'"
    by (auto split: option.splits)
  from Cons.prems(2) have a: "\<not> posts_seek a" and as: "\<forall>a \<in> set as. \<not> posts_seek a"
    by simp_all
  from perform_advances_offset [OF s1(1) a Cons.prems(3)]
  have 1: "\<not> b_seek_request s1"
    "i_stream_offset s1 = i_stream_offset s + word_of_int (consumed a s)" by simp_all
  from Cons.IH [OF s1(2) as 1(1)] 1(2) s1(1) show ?case
    by simp
qed

text \<open>
  C6. Let \<open>p\<close> be posted with \<^verbatim>\<open>STREAM_SET_POSITION\<close> on a filter that can seek. After any
  actions other than a further request and the completion of the seek, the query
  \<^verbatim>\<open>STREAM_GET_POSITION\<close> answers \<open>p\<close>. Once the producer has completed the seek, and after
  any further actions other than a new request, it answers \<open>p\<close> plus the number of bytes
  the consumer has read since (in 64-bit arithmetic). In every state the answer is
  \<^verbatim>\<open>i_seek_pos\<close> while a seek is pending and \<^verbatim>\<open>i_stream_offset\<close> otherwise.
\<close>

theorem get_position_follows_seek:
  assumes "b_can_seek s"
      and "run as (snd (Control (STREAM_SET_POSITION p) s)) = Some s1"
      and "\<forall>a \<in> set as. \<not> posts_seek a \<and> \<not> completes_seek a"
      and "perform (Producer_commit b_long_seek) s1 = Some s2"
      and "run bs s2 = Some s3"
      and "\<forall>a \<in> set bs. \<not> posts_seek a"
  shows "fst (Control STREAM_GET_POSITION s1) = Inr (Reply_uint64 p) \<and>
         fst (Control STREAM_GET_POSITION s3) =
           Inr (Reply_uint64 (p + word_of_int (consumed_run bs s2))) \<and>
         (\<forall>t. fst (Control STREAM_GET_POSITION t) =
                Inr (Reply_uint64 (if b_seek_request t then i_seek_pos t
                                   else i_stream_offset t)))"
proof -
  let ?s0 = "snd (Control (STREAM_SET_POSITION p) s)"
  have 0: "b_seek_request ?s0" "i_seek_pos ?s0 = p"
    using assms(1) by (simp_all add: emit_def)
  from run_keeps_request [OF assms(2,3)] 0
  have 1: "b_seek_request s1" "i_seek_pos s1 = p" by simp_all
  from assms(4) 1 have 2: "\<not> b_seek_request s2" "i_stream_offset s2 = p"
    by (auto simp: seek_commit_def Let_def emit_def split: if_splits)
  from run_advances_offset [OF assms(5,6) 2(1)] 2(2)
  have 3: "\<not> b_seek_request s3" "i_stream_offset s3 = p + word_of_int (consumed_run bs s2)"
    by simp_all
  show ?thesis using 1 3 by simp
qed


lemma Read_returns:
  assumes "0 < sint n" and "\<not> b_seek_request s" and "sint n \<le> i_buffer_size s"
  shows "Read env None n s =
           Returns (sint n, None,
                 emit (Cond_broadcast wakeup_write_cond)
                   (s\<lparr> i_buffer_size := i_buffer_size s - sint n,
                        i_read_index := (i_read_index s + sint n) smod RING_TOTAL_CAPACITY,
                        i_stream_offset := i_stream_offset s + word_of_int (sint n) \<rparr>))"
proof -
  have "peek_copy (p_buffer s) (sint n) None (i_read_index s) 0 = Some (None, sint n)"
    using assms(1) by (intro peek_copy_null) simp
  from PeekFromBuffer_l_returns [OF assms this] assms(1) show ?thesis
    by (simp add: Read_def ReadFromBuffer_l_def)
qed

text \<open>
  The theorem at the seek to 16384 posted with 64 KiB cached: the position is 16384 while
  the request is pending, and 17408 after its completion and a read of 1024 bytes.
\<close>

theorem get_position_follows_seek_witness:
  "b_can_seek sys_cached \<and>
   (\<exists>s1 s2 s3.
      run [Producer_classify] (snd (Control (STREAM_SET_POSITION 16384) sys_cached)) = Some s1 \<and>
      perform (Producer_commit False) s1 = Some s2 \<and>
      run [Call_Read None 1024] s2 = Some s3 \<and>
      fst (Control STREAM_GET_POSITION s1) = Inr (Reply_uint64 16384) \<and>
      consumed_run [Call_Read None 1024] s2 = 1024 \<and>
      fst (Control STREAM_GET_POSITION s3) = Inr (Reply_uint64 17408))"
proof -
  define s1 where "s1 = seek_pending_at 16384 sys_cached"
  define s2 where "s2 = seek_commit False s1"
  define s3 where
    "s3 = emit (Cond_broadcast wakeup_write_cond)
            (s2\<lparr> i_buffer_size := i_buffer_size s2 - 1024,
                  i_read_index := (i_read_index s2 + 1024) smod RING_TOTAL_CAPACITY,
                  i_stream_offset := i_stream_offset s2 + word_of_int 1024 \<rparr>)"
  have c: "b_can_seek sys_cached" by (simp add: sys_cached_def sys_1TiB_def)
  have f1: "b_seek_request s1"
    "seek_class_of (fst (seek_classify s1)) = Short_seek" "i_write_index s1 = 65536"
    "i_seek_pos s1 = 16384"
    by (simp_all add: s1_def seek_classify_class seek_pending_at_def sys_cached_def sys_1TiB_def
          emit_def ring_consts)
  have "snd (seek_classify s1) = s1"
    using f1(2) by (auto simp: seek_classify_def Let_def split: if_splits)
  then have r1: "run [Producer_classify] (snd (Control (STREAM_SET_POSITION 16384) sys_cached))
                   = Some s1"
    using f1(1) by (simp add: s1_def seek_pending_at_def)
  have r2: "perform (Producer_commit False) s1 = Some s2"
    using f1(1) by (simp add: s2_def)
  have f2: "\<not> b_seek_request s2" "i_buffer_size s2 = 49152"
    using f1 by (simp_all add: s2_def seek_commit_def Let_def emit_def ring_consts smod_int_alt_def)
  have s1024: "sint (1024 :: 32 word) = 1024" by simp
  have rd: "Read [] None 1024 s2 = Returns (1024, None, s3)"
    using Read_returns [of 1024 s2 "[]"] f2 s1024 by (simp add: s3_def)
  then have r3: "run [Call_Read None 1024] s2 = Some s3" by simp
  have cr: "consumed_run [Call_Read None 1024] s2 = 1024"
    using rd by simp
  have a: "\<forall>a \<in> set [Producer_classify]. \<not> posts_seek a \<and> \<not> completes_seek a" by simp
  have b: "\<forall>a \<in> set [Call_Read None 1024]. \<not> posts_seek a" by simp
  have w: "(16384 :: 64 word) + word_of_int 1024 = 17408" by simp
  note g = get_position_follows_seek [OF c r1 a r2 r3 b, unfolded cr w]
  have "fst (Control STREAM_GET_POSITION s1) = Inr (Reply_uint64 16384)"
    "fst (Control STREAM_GET_POSITION s3) = Inr (Reply_uint64 17408)"
    using g by blast+
  with c r1 r2 r3 cr show ?thesis by blast
qed

subsection \<open>A producer waiting for space and a consumer waiting for a seek\<close>

lemma write_wait_forever:
  assumes "\<not> b_abort s" and "\<not> b_error s" and "b_seek_request s"
      and "RING_TOTAL_CAPACITY - RING_BUFF_RW_GUARD_GAP \<le> i_buffer_size s + n"
  shows "WaitBufferForWrite_loop (replicate k WaitBufferForRead_wait) n s = None"
  using assms
proof (induction k arbitrary: s)
  case 0
  then show ?case by (simp add: WaitBufferForWrite_pass_def ring_consts)
next
  case (Suc k)
  let ?s = "WaitBufferForRead_wait (WaitBufferForWrite_wait s)"
  have p: "WaitBufferForWrite_pass n s = None"
    using Suc.prems by (simp add: WaitBufferForWrite_pass_def ring_consts)
  have "WaitBufferForWrite_loop (replicate k WaitBufferForRead_wait) n ?s = None"
    using Suc.prems
    by (intro Suc.IH) (simp_all add: WaitBufferForRead_wait_def WaitBufferForWrite_wait_def emit_def)
  with p show ?case by simp
qed

lemma read_wait_forever:
  assumes "\<not> b_abort s" and "\<not> b_error s" and "\<not> b_buffered_eos s" and "b_seek_request s"
  shows "WaitBufferForRead_loop (replicate k WaitBufferForWrite_wait) n s = None"
  using assms
proof (induction k arbitrary: s)
  case 0
  then show ?case by (simp add: WaitBufferForRead_pass_def)
next
  case (Suc k)
  let ?s = "WaitBufferForWrite_wait (WaitBufferForRead_wait s)"
  have p: "WaitBufferForRead_pass n s = None"
    using Suc.prems by (simp add: WaitBufferForRead_pass_def)
  have "WaitBufferForRead_loop (replicate k WaitBufferForWrite_wait) n ?s = None"
    using Suc.prems
    by (intro Suc.IH) (simp_all add: WaitBufferForRead_wait_def WaitBufferForWrite_wait_def emit_def)
  with p show ?case by simp
qed

text \<open>
  C8. The specification states that a producer blocked in \<^verbatim>\<open>WaitBufferForWrite_l\<close> and
  a consumer blocked behind a pending seek never deadlock. The code does not achieve it. After 320
  rounds of the run above the cached range is the whole ring; a short seek back to
  offset 33792 makes 10451968 bytes unread, and the producer, with 32 KiB read from the
  source, waits for space. If the consumer now posts another seek before it reads, the
  exit for a pending seek does not open either, since
  \<open>buffer_size + n = CAPACITY - RW_GAP\<close>: the iteration of the producer has not
  returned after any number of wake-ups, so the seek is never resolved, and the
  consumer's read behind the seek has not returned after any number of wake-ups.
\<close>

theorem blocked_producer_and_seeking_consumer_deadlock:
  "reachable (seek_pending_at 33792 (after_rounds 320)) \<and>
   (\<forall>k. BufferThread_iteration (io_full_write k) (seek_pending_at 33792 (after_rounds 320))
          = Pending) \<and>
   reachable sys_nearly_full \<and>
   (\<forall>k. Read (replicate k WaitBufferForWrite_wait) None 10 sys_nearly_full = Pending)"
proof -
  define a where "a = seek_pending_at 33792 (after_rounds 320)"
  define a1 where "a1 = emit Stream_Tell a"
  define c where "c = seek_commit False a1"
  define c0 where "c0 = emit (Stream_Read BYTES_PER_READ) c"
  have k: "kept_up 320 (after_rounds 320)" and r: "reachable (after_rounds 320)"
    by (simp_all add: after_rounds)
  note f = k [unfolded kept_up_def]
  have ra: "reachable a" unfolding a_def using r by (rule reachable_seek_pending_at)
  have a1: "b_seek_request a1" "seek_class_of (fst (seek_classify a1)) = Short_seek"
    "\<not> b_abort a1" "\<not> b_error a1" "i_write_index a1 = 0" "i_seek_pos a1 = 33792"
    "b_can_seek a1" "\<not> b_buffered_eos a1" "i_stream_size a1 = 1099511627776"
    using f
    by (simp_all add: a1_def a_def seek_classify_class seek_pending_at_def emit_def ring_consts)
  have tell: "BufferThread_tell 10485760 a = a1"
    using f by (simp add: BufferThread_tell_def Let_def a1_def a_def seek_pending_at_def emit_def)
  have eos: "BufferThread_eos [] a1 = Returns (Continue, a1)"
    using a1 by (simp add: BufferThread_eos_def)
  have seek: "BufferThread_seek id id 0 a1 = (Continue, c)"
    using a1 by (simp add: BufferThread_seek_short c_def)
  have c0: "\<not> b_abort c0" "\<not> b_error c0" "\<not> b_seek_request c0" "i_buffer_size c0 = 10451968"
    "b_can_seek c0"
    using a1
    by (simp_all add: c0_def c_def seek_commit_def Let_def emit_def ring_consts smod_int_alt_def)
  have first: "WaitBufferForWrite_pass 32768 c0 = None"
    using c0 by (simp add: WaitBufferForWrite_pass_def ring_consts)
  let ?d = "WaitBufferForRead_wait (seek_pending_at 0 (WaitBufferForWrite_wait c0))"
  have d: "\<not> b_abort ?d" "\<not> b_error ?d" "b_seek_request ?d"
    "RING_TOTAL_CAPACITY - RING_BUFF_RW_GUARD_GAP \<le> i_buffer_size ?d + 32768"
    using c0
    by (simp_all add: WaitBufferForRead_wait_def WaitBufferForWrite_wait_def seek_pending_at_def
          emit_def ring_consts)
  have producer: "BufferThread_iteration (io_full_write k) a = Pending" for k
  proof -
    have "WaitBufferForWrite_l (io_write_env (io_full_write k)) 32768 c0 = None"
      using first write_wait_forever [OF d, of k]
      by (simp add: WaitBufferForWrite_l_def io_full_write_def)
    then have "BufferThread_read (io_write_env (io_full_write k)) 32768 zero_bytes c = Pending"
      by (simp add: BufferThread_read_def WriteToBuffer_l_def Let_def c0_def)
    then show ?thesis
      using tell eos seek by (simp add: BufferThread_iteration_def io_full_write_def)
  qed
  have consumer: "Read (replicate k WaitBufferForWrite_wait) None 10 sys_nearly_full = Pending"
    for k
    using read_wait_forever [OF sys_nearly_full_fields(3,4,6,2), of k 10]
    by (simp add: Read_def ReadFromBuffer_l_def PeekFromBuffer_l_def WaitBufferForRead_l_def)
  show ?thesis
    using ra producer consumer sys_nearly_full_fields(1) by (simp add: a_def)
qed
end
